theory Spec2Isabelle
  imports Complex_Main
begin

section \<open>The triangle constraint solver of \<^verbatim>\<open>triangle.c\<close>\<close>

text \<open>
  The program computes with \<^verbatim>\<open>typedef long double real\<close>. It is embedded twice.

  The first embedding reads every arithmetic operator, \<^verbatim>\<open>sqrtl\<close>, \<^verbatim>\<open>acosl\<close> and \<^verbatim>\<open>fabsl\<close>
  as the exact operation on \<^typ>\<open>real\<close>. It serves the statements that compare one
  formula of the program with another one, or the loop with a state machine: they hold
  for the shape of the computation and do not depend on how a result is rounded. Where
  the C operation leaves the reals (a division by zero, a square root of a negative
  number, an arc cosine outside \<open>[-1, 1]\<close>) HOL still returns some real number, for
  instance \<open>x / 0 = 0\<close>, so nothing is concluded in this reading about ranges of
  results or about the non-finite values of the machine.

  The second embedding, in the section on long double arithmetic, computes with the
  values of the x87 extended format themselves: rounding to nearest, underflow,
  overflow to infinity and NaN. It serves the statements about the exact value of a
  computed length, which rounding decides.
\<close>

subsection \<open>Constants\<close>

definition CONSTRAINT_SOLVER_MAX_ITERATIONS :: nat where
  "CONSTRAINT_SOLVER_MAX_ITERATIONS = 1000"

definition CONSTRAINT_SLOPE_INITIAL_GUESS :: real where
  "CONSTRAINT_SLOPE_INITIAL_GUESS = 1.0"

definition CONSTRAINT_ERROR_TRANSFER_RATIO :: real where
  "CONSTRAINT_ERROR_TRANSFER_RATIO = 0.1"

definition CONSTRAINT_ERROR_THRESHOLD :: real where
  "CONSTRAINT_ERROR_THRESHOLD = 0.0000000001"

text \<open>
  \<^verbatim>\<open>M_PI\<close> comes from the system header \<^verbatim>\<open>math.h\<close>, which is not part of the repository.
  The two macros built on it take its value as the parameter \<open>M_PI\<close>.
\<close>

definition RADIANS_TO_DEGREES :: "real \<Rightarrow> real" where
  "RADIANS_TO_DEGREES M_PI = 180 / M_PI"

definition FIFTY_DEGREES_AS_RADIANS :: "real \<Rightarrow> real" where
  "FIFTY_DEGREES_AS_RADIANS M_PI = 50 * M_PI / 180"

subsection \<open>Vectors\<close>

record vec2 =
  x :: real
  y :: real

definition vec2Subtract :: "vec2 \<Rightarrow> vec2 \<Rightarrow> vec2" where
  "vec2Subtract a b = \<lparr>x = x a - x b, y = y a - y b\<rparr>"

definition vec2Dot :: "vec2 \<Rightarrow> vec2 \<Rightarrow> real" where
  "vec2Dot a b = x a * x b + y a * y b"

definition vec2Magnitude :: "vec2 \<Rightarrow> real" where
  "vec2Magnitude v = sqrt (x v * x v + y v * y v)"

definition vec2Angle :: "vec2 \<Rightarrow> vec2 \<Rightarrow> vec2 \<Rightarrow> real" where
  "vec2Angle a b c =
     (let ab = vec2Subtract b a;
          cb = vec2Subtract b c
      in arccos (vec2Dot ab cb / (vec2Magnitude ab * vec2Magnitude cb)))"

subsection \<open>The constraint evaluator\<close>

definition ConstraintTest :: "real \<Rightarrow> real" where
  "ConstraintTest m =
     (let msqrt = sqrt (m * m + 1.0);
          K = \<lparr>x = 1.0 - 1.0 / sqrt (m * m + 1.0), y = m / sqrt (m * m + 1.0)\<rparr>;
          slopeK = (msqrt + 1.0) / m;
          j = sqrt (2.0 * x K);
          A = \<lparr>x = 0.5, y = slopeK * 0.5\<rparr>;
          magnitudeA = vec2Magnitude A;
          i = magnitudeA - j;
          L = \<lparr>x = 1.0 - i * 0.5 / magnitudeA, y = i * y A / magnitudeA\<rparr>;
          B = \<lparr>x = 1.0, y = 0.0\<rparr>
      in vec2Angle B K L)"

text \<open>
  The local variables of \<^verbatim>\<open>ConstraintTest\<close>, each as a function of the slope, in the
  order and with the right-hand sides of the source. Lemma \<open>ConstraintTest_locals\<close>
  below shows that they are the values the function computes with.
\<close>

definition CT_msqrt :: "real \<Rightarrow> real" where
  "CT_msqrt m = sqrt (m * m + 1.0)"

definition CT_K :: "real \<Rightarrow> vec2" where
  "CT_K m = \<lparr>x = 1.0 - 1.0 / sqrt (m * m + 1.0), y = m / sqrt (m * m + 1.0)\<rparr>"

definition CT_slopeK :: "real \<Rightarrow> real" where
  "CT_slopeK m = (CT_msqrt m + 1.0) / m"

definition CT_j :: "real \<Rightarrow> real" where
  "CT_j m = sqrt (2.0 * x (CT_K m))"

definition CT_A :: "real \<Rightarrow> vec2" where
  "CT_A m = \<lparr>x = 0.5, y = CT_slopeK m * 0.5\<rparr>"

definition CT_magnitudeA :: "real \<Rightarrow> real" where
  "CT_magnitudeA m = vec2Magnitude (CT_A m)"

definition CT_i :: "real \<Rightarrow> real" where
  "CT_i m = CT_magnitudeA m - CT_j m"

definition CT_L :: "real \<Rightarrow> vec2" where
  "CT_L m = \<lparr>x = 1.0 - CT_i m * 0.5 / CT_magnitudeA m,
             y = CT_i m * y (CT_A m) / CT_magnitudeA m\<rparr>"

definition CT_B :: vec2 where
  "CT_B = \<lparr>x = 1.0, y = 0.0\<rparr>"

text \<open>The point \<open>C\<close> of the construction; the source names it only in comments
  (\<^verbatim>\<open>C = (0, 0)\<close>).\<close>

definition CT_C :: vec2 where
  "CT_C = \<lparr>x = 0, y = 0\<rparr>"

subsection \<open>The angle alpha\<close>

definition alpha :: "real \<Rightarrow> real \<Rightarrow> real" where
  "alpha M_PI m =
     (let j = sqrt (2.0 - 2.0 / sqrt (m * m + 1.0));
          angleBCK = arccos (j * 0.5) * RADIANS_TO_DEGREES M_PI
      in 180.0 - 2.0 * angleBCK)"

definition alpha_j :: "real \<Rightarrow> real" where
  "alpha_j m = sqrt (2.0 - 2.0 / sqrt (m * m + 1.0))"

subsection \<open>The solver loop of \<^verbatim>\<open>main\<close>\<close>

text \<open>
  The loop state is the triple of the locals \<^verbatim>\<open>i\<close>, \<^verbatim>\<open>m\<close> and \<^verbatim>\<open>error\<close>. The counter is an
  \<^verbatim>\<open>unsigned int\<close> that starts at 1000 and is only decremented while positive, so it
  never wraps and is a \<^typ>\<open>nat\<close> here. \<^verbatim>\<open>error\<close> is declared without a value: the
  loop takes whatever it holds on entry as an argument. The first equation is the
  failed loop test \<^verbatim>\<open>i > 0\<close>, the \<open>then\<close> branch is the \<^verbatim>\<open>break\<close>.
\<close>

fun solver_loop :: "real \<Rightarrow> nat \<Rightarrow> real \<Rightarrow> real \<Rightarrow> nat \<times> real \<times> real" where
  "solver_loop M_PI 0 m error = (0, m, error)"
| "solver_loop M_PI (Suc i) m error =
     (let theta = ConstraintTest m;
          error' = theta - FIFTY_DEGREES_AS_RADIANS M_PI
      in if \<bar>error'\<bar> \<le> CONSTRAINT_ERROR_THRESHOLD then (Suc i, m, error')
         else solver_loop M_PI i (m + error' * CONSTRAINT_ERROR_TRANSFER_RATIO) error')"

text \<open>What \<^verbatim>\<open>main\<close> prints: the iteration count, the slope, the error and alpha.\<close>

definition main_output :: "real \<Rightarrow> real \<Rightarrow> nat \<times> real \<times> real \<times> real" where
  "main_output M_PI error0 =
     (case solver_loop M_PI CONSTRAINT_SOLVER_MAX_ITERATIONS
             CONSTRAINT_SLOPE_INITIAL_GUESS error0 of
        (i, m, error) \<Rightarrow>
          (CONSTRAINT_SOLVER_MAX_ITERATIONS - i, m, error, alpha M_PI m))"

section \<open>The specification's formulas\<close>

text \<open>
  The definitions of this section do not come from the source. They write down the
  formulas of the specification, in its words, so that the code can be compared with
  them: the vector operations of \<open>L = B + (A - B)/|A| * i\<close>, the angle at a vertex
  \<open>arccos (dot (a - b, c - b) / (|a - b| * |c - b|))\<close>, the seven steps of the
  constraint evaluator, and the state machine of the solver.
\<close>

definition spec_vec2Add :: "vec2 \<Rightarrow> vec2 \<Rightarrow> vec2" where
  "spec_vec2Add a b = \<lparr>x = x a + x b, y = y a + y b\<rparr>"

definition spec_vec2Scale :: "vec2 \<Rightarrow> real \<Rightarrow> vec2" where
  "spec_vec2Scale v s = \<lparr>x = x v * s, y = y v * s\<rparr>"

definition spec_vec2Div :: "vec2 \<Rightarrow> real \<Rightarrow> vec2" where
  "spec_vec2Div v s = \<lparr>x = x v / s, y = y v / s\<rparr>"

definition spec_angleBetween :: "vec2 \<Rightarrow> vec2 \<Rightarrow> vec2 \<Rightarrow> real" where
  "spec_angleBetween a b c =
     arccos (vec2Dot (vec2Subtract a b) (vec2Subtract c b)
             / (vec2Magnitude (vec2Subtract a b) * vec2Magnitude (vec2Subtract c b)))"

definition spec_ConstraintTest :: "real \<Rightarrow> real" where
  "spec_ConstraintTest m =
     (let K = \<lparr>x = 1 - 1 / sqrt (m\<^sup>2 + 1), y = m / sqrt (m\<^sup>2 + 1)\<rparr>;
          slopeK = (sqrt (m\<^sup>2 + 1) + 1) / m;
          j = sqrt (2 * x K);
          A = \<lparr>x = 0.5, y = slopeK * 0.5\<rparr>;
          i = vec2Magnitude A - j;
          B = \<lparr>x = 1, y = 0\<rparr>;
          L = spec_vec2Add B
                (spec_vec2Scale (spec_vec2Div (vec2Subtract A B) (vec2Magnitude A)) i)
      in spec_angleBetween B K L)"

text \<open>
  The solver as the state machine of the specification, on states
  \<open>(m, error, iterations_remaining)\<close>: with no iteration left the state is final
  (\<open>exhausted\<close>); otherwise the error is evaluated, and either it is within
  \<open>1e-10\<close> and the state with that error is final (\<open>converged\<close>), or the slope moves
  by a tenth of the error, the counter goes down by one and the machine goes on
  (\<open>iterate\<close>).
\<close>

inductive spec_solver :: "real \<Rightarrow> real \<times> real \<times> nat \<Rightarrow> real \<times> real \<times> nat \<Rightarrow> bool"
  for target :: real where
  exhausted: "spec_solver target (m, error, 0) (m, error, 0)"
| converged: "0 < n \<Longrightarrow> error' = ConstraintTest m - target \<Longrightarrow> \<bar>error'\<bar> \<le> 1 / 10 ^ 10
     \<Longrightarrow> spec_solver target (m, error, n) (m, error', n)"
| iterate: "0 < n \<Longrightarrow> error' = ConstraintTest m - target \<Longrightarrow> \<not> \<bar>error'\<bar> \<le> 1 / 10 ^ 10
     \<Longrightarrow> spec_solver target (m + error' * 0.1, error', n - 1) s
     \<Longrightarrow> spec_solver target (m, error, n) s"

text \<open>The loop state \<open>(i, m, error)\<close> of the source in the order of the specification's
  state.\<close>

definition loop_result :: "nat \<times> real \<times> real \<Rightarrow> real \<times> real \<times> nat" where
  "loop_result r = (case r of (i, m, error) \<Rightarrow> (m, error, i))"

section \<open>Long double arithmetic\<close>

text \<open>
  The long double of the x87 unit (the \<^verbatim>\<open>long double\<close> of C on x86 with Linux): a sign, a
  significand of 64 bits and an exponent between \<open>-16382\<close> and \<open>16383\<close>. A finite value
  is kept as its sign (\<open>True\<close> for minus) and its magnitude, so that the two zeros are
  two values; the other values are the two infinities and NaN.
\<close>

datatype ldouble = Finite bool real | Infinity bool | NaN

definition ld_emin :: int where
  "ld_emin = - 16382"

definition ld_emax :: int where
  "ld_emax = 16383"

definition pow2 :: "int \<Rightarrow> real" where
  "pow2 k = 2 powi k"

text \<open>
  Rounding of a non-negative real to the nearest magnitude of the format, ties to the
  even significand. The numbers of the binade \<open>[2^e, 2^(e+1))\<close> are the multiples of
  \<open>2^(e-63)\<close>; below \<open>2^-16382\<close> lie the subnormal numbers, the multiples of
  \<open>2^-16445\<close>. The exponent is not bounded above while rounding: a result of
  \<open>2^16384\<close> or more becomes an infinity in \<open>ld_round\<close>.
\<close>

definition binade :: "real \<Rightarrow> int" where
  "binade a = (if a < pow2 ld_emin then ld_emin else \<lfloor>log 2 a\<rfloor>)"

definition ulp :: "real \<Rightarrow> real" where
  "ulp a = pow2 (binade a - 63)"

definition rne :: "real \<Rightarrow> int" where
  "rne q = (let n = \<lfloor>q\<rfloor>; f = q - of_int n
            in if f < 1 / 2 then n
               else if 1 / 2 < f then n + 1
               else if even n then n else n + 1)"

definition round_mag :: "real \<Rightarrow> real" where
  "round_mag a = ulp a * of_int (rne (a / ulp a))"

definition ld_round :: "bool \<Rightarrow> real \<Rightarrow> ldouble" where
  "ld_round s a =
     (if pow2 (ld_emax + 1) \<le> round_mag a then Infinity s else Finite s (round_mag a))"

text \<open>
  The operations of IEEE 754 on these values: the exact result, rounded; the sign of
  a product or quotient is the exclusive or of the signs; an exact sum of zero is
  \<open>+0\<close> unless both terms are \<open>-0\<close>; \<open>x / 0\<close> is an infinity and \<open>0 / 0\<close>, \<open>inf / inf\<close>,
  \<open>0 * inf\<close> and \<open>inf - inf\<close> are NaN; the square root of \<open>-0\<close> is \<open>-0\<close> and that of any
  other negative value is NaN; NaN propagates. \<open>ld_value\<close> is the real number of a
  finite value.
\<close>

fun ld_value :: "ldouble \<Rightarrow> real" where
  "ld_value (Finite s a) = (if s then - a else a)"
| "ld_value (Infinity s) = 0"
| "ld_value NaN = 0"

fun ld_neg :: "ldouble \<Rightarrow> ldouble" where
  "ld_neg (Finite s a) = Finite (\<not> s) a"
| "ld_neg (Infinity s) = Infinity (\<not> s)"
| "ld_neg NaN = NaN"

fun ld_add :: "ldouble \<Rightarrow> ldouble \<Rightarrow> ldouble" where
  "ld_add (Finite s a) (Finite t b) =
     (let r = ld_value (Finite s a) + ld_value (Finite t b)
      in if r = 0 then Finite (s \<and> t) 0 else ld_round (r < 0) \<bar>r\<bar>)"
| "ld_add (Finite s a) (Infinity t) = Infinity t"
| "ld_add (Infinity s) (Finite t b) = Infinity s"
| "ld_add (Infinity s) (Infinity t) = (if s = t then Infinity s else NaN)"
| "ld_add NaN v = NaN"
| "ld_add v NaN = NaN"

definition ld_sub :: "ldouble \<Rightarrow> ldouble \<Rightarrow> ldouble" where
  "ld_sub u v = ld_add u (ld_neg v)"

fun ld_mul :: "ldouble \<Rightarrow> ldouble \<Rightarrow> ldouble" where
  "ld_mul (Finite s a) (Finite t b) = ld_round (s \<noteq> t) (a * b)"
| "ld_mul (Finite s a) (Infinity t) = (if a = 0 then NaN else Infinity (s \<noteq> t))"
| "ld_mul (Infinity s) (Finite t b) = (if b = 0 then NaN else Infinity (s \<noteq> t))"
| "ld_mul (Infinity s) (Infinity t) = Infinity (s \<noteq> t)"
| "ld_mul NaN v = NaN"
| "ld_mul v NaN = NaN"

fun ld_div :: "ldouble \<Rightarrow> ldouble \<Rightarrow> ldouble" where
  "ld_div (Finite s a) (Finite t b) =
     (if b = 0 then (if a = 0 then NaN else Infinity (s \<noteq> t))
      else ld_round (s \<noteq> t) (a / b))"
| "ld_div (Finite s a) (Infinity t) = Finite (s \<noteq> t) 0"
| "ld_div (Infinity s) (Finite t b) = Infinity (s \<noteq> t)"
| "ld_div (Infinity s) (Infinity t) = NaN"
| "ld_div NaN v = NaN"
| "ld_div v NaN = NaN"

fun ld_sqrt :: "ldouble \<Rightarrow> ldouble" where
  "ld_sqrt (Finite s a) =
     (if a = 0 then Finite s 0 else if s then NaN else ld_round False (sqrt a))"
| "ld_sqrt (Infinity s) = (if s then NaN else Infinity False)"
| "ld_sqrt NaN = NaN"

text \<open>
  \<open>is_ld\<close> holds of the values of the format: a finite one has a magnitude that
  rounding leaves alone. \<open>ld_finite\<close> are the finite ones among them. \<open>ld_is_zero\<close> and
  \<open>ld_ge_zero\<close> are the comparisons \<^verbatim>\<open>== 0\<close> and \<^verbatim>\<open>>= 0\<close> of C: both zeros are zero, and
  NaN compares false.
\<close>

fun is_ld :: "ldouble \<Rightarrow> bool" where
  "is_ld (Finite s a) = (0 \<le> a \<and> round_mag a = a \<and> a < pow2 (ld_emax + 1))"
| "is_ld (Infinity s) = True"
| "is_ld NaN = True"

fun ld_finite :: "ldouble \<Rightarrow> bool" where
  "ld_finite (Finite s a) = is_ld (Finite s a)"
| "ld_finite (Infinity s) = False"
| "ld_finite NaN = False"

fun ld_is_zero :: "ldouble \<Rightarrow> bool" where
  "ld_is_zero (Finite s a) = (a = 0)"
| "ld_is_zero (Infinity s) = False"
| "ld_is_zero NaN = False"

fun ld_ge_zero :: "ldouble \<Rightarrow> bool" where
  "ld_ge_zero (Finite s a) = (0 \<le> ld_value (Finite s a))"
| "ld_ge_zero (Infinity s) = (\<not> s)"
| "ld_ge_zero NaN = False"

text \<open>The literals \<^verbatim>\<open>0.0\<close>, \<^verbatim>\<open>0.5\<close>, \<^verbatim>\<open>1.0\<close> and \<^verbatim>\<open>2.0\<close> of the source.\<close>

definition ld_zero :: ldouble where
  "ld_zero = Finite False 0"

definition ld_half :: ldouble where
  "ld_half = Finite False (1 / 2)"

definition ld_one :: ldouble where
  "ld_one = Finite False 1"

definition ld_two :: ldouble where
  "ld_two = Finite False 2"

subsection \<open>The program on long doubles\<close>

text \<open>
  The vector primitives and \<^verbatim>\<open>ConstraintTest\<close> once more, operator by operator as in
  the source. \<^verbatim>\<open>acosl\<close> belongs to the C library, which fixes its results only up to
  an error bound; it is a parameter of the two functions that call it.
\<close>

record ld_vec2 =
  ld_x :: ldouble
  ld_y :: ldouble

definition ld_vec2Subtract :: "ld_vec2 \<Rightarrow> ld_vec2 \<Rightarrow> ld_vec2" where
  "ld_vec2Subtract a b = \<lparr>ld_x = ld_sub (ld_x a) (ld_x b), ld_y = ld_sub (ld_y a) (ld_y b)\<rparr>"

definition ld_vec2Dot :: "ld_vec2 \<Rightarrow> ld_vec2 \<Rightarrow> ldouble" where
  "ld_vec2Dot a b = ld_add (ld_mul (ld_x a) (ld_x b)) (ld_mul (ld_y a) (ld_y b))"

definition ld_vec2Magnitude :: "ld_vec2 \<Rightarrow> ldouble" where
  "ld_vec2Magnitude v = ld_sqrt (ld_add (ld_mul (ld_x v) (ld_x v)) (ld_mul (ld_y v) (ld_y v)))"

definition ld_vec2Angle :: "(ldouble \<Rightarrow> ldouble) \<Rightarrow> ld_vec2 \<Rightarrow> ld_vec2 \<Rightarrow> ld_vec2 \<Rightarrow> ldouble" where
  "ld_vec2Angle acosl a b c =
     (let ab = ld_vec2Subtract b a;
          cb = ld_vec2Subtract b c
      in acosl (ld_div (ld_vec2Dot ab cb) (ld_mul (ld_vec2Magnitude ab) (ld_vec2Magnitude cb))))"

definition ld_ConstraintTest :: "(ldouble \<Rightarrow> ldouble) \<Rightarrow> ldouble \<Rightarrow> ldouble" where
  "ld_ConstraintTest acosl m =
     (let msqrt = ld_sqrt (ld_add (ld_mul m m) ld_one);
          K = \<lparr>ld_x = ld_sub ld_one (ld_div ld_one (ld_sqrt (ld_add (ld_mul m m) ld_one))),
               ld_y = ld_div m (ld_sqrt (ld_add (ld_mul m m) ld_one))\<rparr>;
          slopeK = ld_div (ld_add msqrt ld_one) m;
          j = ld_sqrt (ld_mul ld_two (ld_x K));
          A = \<lparr>ld_x = ld_half, ld_y = ld_mul slopeK ld_half\<rparr>;
          magnitudeA = ld_vec2Magnitude A;
          i = ld_sub magnitudeA j;
          L = \<lparr>ld_x = ld_sub ld_one (ld_div (ld_mul i ld_half) magnitudeA),
               ld_y = ld_div (ld_mul i (ld_y A)) magnitudeA\<rparr>;
          B = \<lparr>ld_x = ld_one, ld_y = ld_zero\<rparr>
      in ld_vec2Angle acosl B K L)"

text \<open>The locals of \<^verbatim>\<open>ConstraintTest\<close> as functions of the slope, and the point \<open>C\<close> of the
  comments.\<close>

definition ld_CT_msqrt :: "ldouble \<Rightarrow> ldouble" where
  "ld_CT_msqrt m = ld_sqrt (ld_add (ld_mul m m) ld_one)"

definition ld_CT_K :: "ldouble \<Rightarrow> ld_vec2" where
  "ld_CT_K m = \<lparr>ld_x = ld_sub ld_one (ld_div ld_one (ld_sqrt (ld_add (ld_mul m m) ld_one))),
                ld_y = ld_div m (ld_sqrt (ld_add (ld_mul m m) ld_one))\<rparr>"

definition ld_CT_slopeK :: "ldouble \<Rightarrow> ldouble" where
  "ld_CT_slopeK m = ld_div (ld_add (ld_CT_msqrt m) ld_one) m"

definition ld_CT_j :: "ldouble \<Rightarrow> ldouble" where
  "ld_CT_j m = ld_sqrt (ld_mul ld_two (ld_x (ld_CT_K m)))"

definition ld_CT_A :: "ldouble \<Rightarrow> ld_vec2" where
  "ld_CT_A m = \<lparr>ld_x = ld_half, ld_y = ld_mul (ld_CT_slopeK m) ld_half\<rparr>"

definition ld_CT_magnitudeA :: "ldouble \<Rightarrow> ldouble" where
  "ld_CT_magnitudeA m = ld_vec2Magnitude (ld_CT_A m)"

definition ld_CT_i :: "ldouble \<Rightarrow> ldouble" where
  "ld_CT_i m = ld_sub (ld_CT_magnitudeA m) (ld_CT_j m)"

definition ld_CT_L :: "ldouble \<Rightarrow> ld_vec2" where
  "ld_CT_L m =
     \<lparr>ld_x = ld_sub ld_one (ld_div (ld_mul (ld_CT_i m) ld_half) (ld_CT_magnitudeA m)),
      ld_y = ld_div (ld_mul (ld_CT_i m) (ld_y (ld_CT_A m))) (ld_CT_magnitudeA m)\<rparr>"

definition ld_CT_B :: ld_vec2 where
  "ld_CT_B = \<lparr>ld_x = ld_one, ld_y = ld_zero\<rparr>"

definition ld_CT_C :: ld_vec2 where
  "ld_CT_C = \<lparr>ld_x = ld_zero, ld_y = ld_zero\<rparr>"

text \<open>
  What a rounded non-negative number can be: \<open>+inf\<close>, \<open>+0\<close>, or a positive number not
  below the least subnormal \<open>2^-16445\<close>.
\<close>

definition ld_rounded :: "ldouble \<Rightarrow> bool" where
  "ld_rounded w =
     (w = Infinity False \<or> (\<exists>p. w = Finite False p \<and> (p = 0 \<or> pow2 (ld_emin - 63) \<le> p)))"

text \<open>A large finite slope, \<open>2^9000\<close>: its square exceeds the format.\<close>

definition huge :: ldouble where
  "huge = Finite False (pow2 9000)"

text \<open>
  The magnitudes that the code computes on its way from a slope of magnitude \<open>a\<close> to the
  length \<open>|BK|\<close>, one rounding for each operation: \<^verbatim>\<open>m*m\<close>, \<^verbatim>\<open>m*m + 1.0\<close>, its square
  root, \<^verbatim>\<open>1.0/sqrtl(...)\<close>, \<^verbatim>\<open>K.x\<close>, \<^verbatim>\<open>K.y\<close>, the first coordinate \<^verbatim>\<open>1.0 - K.x\<close> of
  \<open>B - K\<close>, the sum of the two squares in \<^verbatim>\<open>vec2Magnitude\<close>, and its square root. Lemma
  \<open>ld_BK_length\<close> below shows that they are the values of the program.
\<close>

definition bk_mm :: "real \<Rightarrow> real" where
  "bk_mm a = round_mag (a * a)"

definition bk_sum :: "real \<Rightarrow> real" where
  "bk_sum a = round_mag (bk_mm a + 1)"

definition bk_s :: "real \<Rightarrow> real" where
  "bk_s a = round_mag (sqrt (bk_sum a))"

definition bk_q :: "real \<Rightarrow> real" where
  "bk_q a = round_mag (1 / bk_s a)"

definition bk_kx :: "real \<Rightarrow> real" where
  "bk_kx a = round_mag (1 - bk_q a)"

definition bk_ky :: "real \<Rightarrow> real" where
  "bk_ky a = round_mag (a / bk_s a)"

definition bk_dx :: "real \<Rightarrow> real" where
  "bk_dx a = round_mag (1 - bk_kx a)"

definition bk_rr :: "real \<Rightarrow> real" where
  "bk_rr a = round_mag (round_mag (bk_dx a * bk_dx a) + round_mag (bk_ky a * bk_ky a))"

definition bk_out :: "real \<Rightarrow> real" where
  "bk_out a = round_mag (sqrt (bk_rr a))"

section \<open>The locals are the values the functions compute with\<close>

lemma ConstraintTest_locals: "ConstraintTest m = vec2Angle CT_B (CT_K m) (CT_L m)"
  unfolding ConstraintTest_def CT_B_def CT_K_def CT_L_def CT_i_def CT_magnitudeA_def
    CT_A_def CT_j_def CT_slopeK_def CT_msqrt_def Let_def
  by (rule refl)

lemma alpha_locals:
  "alpha M_PI m = 180.0 - 2.0 * (arccos (alpha_j m * 0.5) * RADIANS_TO_DEGREES M_PI)"
  unfolding alpha_def alpha_j_def Let_def
  by (rule refl)

section \<open>Vector primitives\<close>

lemma vec2Magnitude_flip: "vec2Magnitude (vec2Subtract a b) = vec2Magnitude (vec2Subtract b a)"
proof -
  have "(x a - x b) * (x a - x b) + (y a - y b) * (y a - y b)
      = (x b - x a) * (x b - x a) + (y b - y a) * (y b - y a)"
    by (simp add: algebra_simps)
  then show ?thesis
    by (simp add: vec2Magnitude_def vec2Subtract_def)
qed

lemma vec2Dot_flip:
  "vec2Dot (vec2Subtract b a) (vec2Subtract b c) = vec2Dot (vec2Subtract a b) (vec2Subtract c b)"
  by (simp add: vec2Dot_def vec2Subtract_def algebra_simps)

lemma vec2Angle_spec: "vec2Angle a b c = spec_angleBetween a b c"
  unfolding vec2Angle_def spec_angleBetween_def Let_def
  by (simp only: vec2Dot_flip vec2Magnitude_flip [of b a] vec2Magnitude_flip [of b c])

text \<open>
  C5. For all points \<open>a\<close>, \<open>b\<close>, \<open>c\<close> with \<open>a \<noteq> b\<close> and \<open>c \<noteq> b\<close>, \<^verbatim>\<open>vec2Angle\<close> returns
  \<open>arccos (dot (a - b, c - b) / (|a - b| * |c - b|))\<close>, the formula of the angle at the
  vertex \<open>b\<close> between the rays to \<open>a\<close> and to \<open>c\<close>: the differences \<open>b - a\<close> and \<open>b - c\<close> of
  the code give exactly this value, since both signs flip together. Nothing is said
  about the range of the result: where rounding pushes the quotient outside
  \<open>[-1, 1]\<close> the machine returns NaN on both sides of the equation.
\<close>

theorem vec2Angle_at_vertex:
  assumes "a \<noteq> b" and "c \<noteq> b"
  shows "vec2Angle a b c
       = arccos (vec2Dot (vec2Subtract a b) (vec2Subtract c b)
                 / (vec2Magnitude (vec2Subtract a b) * vec2Magnitude (vec2Subtract c b)))"
proof -
  have "vec2Angle a b c = spec_angleBetween a b c"
    by (rule vec2Angle_spec)
  then show ?thesis
    by (simp only: spec_angleBetween_def)
qed

text \<open>
  The theorem at the right angle with vertex at the origin and the points \<open>(1, 0)\<close> and
  \<open>(0, 1)\<close>: the angle is \<open>pi / 2\<close>.
\<close>

theorem vec2Angle_at_vertex_witness:
  "\<lparr>x = 1, y = 0\<rparr> \<noteq> \<lparr>x = 0, y = 0\<rparr> \<and> \<lparr>x = 0, y = 1\<rparr> \<noteq> \<lparr>x = 0, y = 0\<rparr>
   \<and> vec2Angle \<lparr>x = 1, y = 0\<rparr> \<lparr>x = 0, y = 0\<rparr> \<lparr>x = 0, y = 1\<rparr> = pi / 2"
proof -
  have ab: "\<lparr>x = 1, y = 0\<rparr> \<noteq> \<lparr>x = 0, y = (0::real)\<rparr>" by simp
  have cb: "\<lparr>x = 0, y = 1\<rparr> \<noteq> \<lparr>x = 0, y = (0::real)\<rparr>" by simp
  from vec2Angle_at_vertex [OF ab cb]
  have "vec2Angle \<lparr>x = 1, y = 0\<rparr> \<lparr>x = 0, y = 0\<rparr> \<lparr>x = 0, y = 1\<rparr>
      = arccos (vec2Dot (vec2Subtract \<lparr>x = 1, y = 0\<rparr> \<lparr>x = 0, y = 0\<rparr>)
                        (vec2Subtract \<lparr>x = 0, y = 1\<rparr> \<lparr>x = 0, y = 0\<rparr>)
         / (vec2Magnitude (vec2Subtract \<lparr>x = 1, y = 0\<rparr> \<lparr>x = 0, y = 0\<rparr>)
            * vec2Magnitude (vec2Subtract \<lparr>x = 0, y = 1\<rparr> \<lparr>x = 0, y = 0\<rparr>)))" .
  also have "\<dots> = pi / 2"
    by (simp add: vec2Dot_def vec2Subtract_def vec2Magnitude_def)
  finally show ?thesis
    using ab cb by simp
qed

section \<open>The constraint evaluator\<close>




lemma CT_K_pow: "CT_K m = \<lparr>x = 1 - 1 / sqrt (m\<^sup>2 + 1), y = m / sqrt (m\<^sup>2 + 1)\<rparr>"
  by (simp add: CT_K_def power2_eq_square)

lemma CT_L_spec:
  "CT_L m = spec_vec2Add CT_B
     (spec_vec2Scale (spec_vec2Div (vec2Subtract (CT_A m) CT_B) (CT_magnitudeA m)) (CT_i m))"
  by (simp add: CT_L_def spec_vec2Add_def spec_vec2Scale_def spec_vec2Div_def vec2Subtract_def
      CT_B_def CT_A_def diff_divide_distrib)

text \<open>
  C1. For every nonzero slope \<open>m\<close>, \<^verbatim>\<open>ConstraintTest\<close> computes the closed form of the
  specification: \<open>K = (1 - 1/sqrt (m\<^sup>2 + 1), m/sqrt (m\<^sup>2 + 1))\<close>,
  \<open>slopeK = (sqrt (m\<^sup>2 + 1) + 1)/m\<close>, \<open>j = sqrt (2 * K.x)\<close>, \<open>A = (0.5, slopeK * 0.5)\<close>,
  \<open>i = |A| - j\<close>, \<open>L = B + (A - B)/|A| * i\<close> with \<open>B = (1, 0)\<close>, and the result is
  the angle between \<open>B\<close>, \<open>K\<close> and \<open>L\<close> at \<open>K\<close>.
\<close>

theorem ConstraintTest_closed_form:
  assumes "m \<noteq> 0"
  shows "ConstraintTest m = spec_ConstraintTest m"
proof -
  have "spec_ConstraintTest m = spec_angleBetween CT_B (CT_K m) (CT_L m)"
    unfolding spec_ConstraintTest_def Let_def CT_L_spec
    by (simp add: CT_K_pow CT_B_def CT_A_def CT_i_def CT_magnitudeA_def CT_j_def CT_slopeK_def CT_msqrt_def power2_eq_square)
  then show ?thesis
    by (simp add: ConstraintTest_locals vec2Angle_spec)
qed

text \<open>
  The theorem at the initial guess of the solver, \<open>m = 1\<close>.
\<close>

theorem ConstraintTest_closed_form_witness:
  "(1::real) \<noteq> 0 \<and> ConstraintTest 1 = spec_ConstraintTest 1"
proof -
  have h: "(1::real) \<noteq> 0" by simp
  from h ConstraintTest_closed_form [OF h] show ?thesis by (rule conjI)
qed


text \<open>
  C4. For every slope \<open>m\<close>, the length \<open>j = sqrt (2.0 - 2.0/sqrt (m*m + 1.0))\<close> that
  \<^verbatim>\<open>alpha\<close> recomputes is the length \<open>j = sqrt (2.0 * K.x)\<close> of \<^verbatim>\<open>ConstraintTest\<close>, so
  \<^verbatim>\<open>alpha\<close> returns what it would return with the evaluator's \<open>j\<close>.
\<close>

theorem CK_length_agrees:
  "alpha_j m = CT_j m
   \<and> alpha M_PI m = 180.0 - 2.0 * (arccos (CT_j m * 0.5) * RADIANS_TO_DEGREES M_PI)"
proof -
  have "2.0 - 2.0 / sqrt (m * m + 1.0) = 2.0 * (1.0 - 1.0 / sqrt (m * m + 1.0))"
    by (simp add: right_diff_distrib)
  then have j: "alpha_j m = CT_j m"
    by (simp add: alpha_j_def CT_j_def CT_K_def)
  have "alpha M_PI m = 180.0 - 2.0 * (arccos (alpha_j m * 0.5) * RADIANS_TO_DEGREES M_PI)"
    by (rule alpha_locals)
  with j show ?thesis
    by simp
qed

section \<open>The solver loop\<close>

lemma threshold_eq: "CONSTRAINT_ERROR_THRESHOLD = 1 / 10 ^ 10"
  by (simp add: CONSTRAINT_ERROR_THRESHOLD_def)

lemma solver_loop_is_spec_run:
  "spec_solver (50 * M_PI / 180) (m, error, n) (loop_result (solver_loop M_PI n m error))"
proof (induction n arbitrary: m error)
  case 0
  show ?case
    by (simp add: loop_result_def spec_solver.exhausted)
next
  case (Suc n)
  define error' where "error' = ConstraintTest m - 50 * M_PI / 180"
  show ?case
  proof (cases "\<bar>error'\<bar> \<le> 1 / 10 ^ 10")
    case True
    have "0 < Suc n" by simp
    moreover have "error' = ConstraintTest m - 50 * M_PI / 180" by (rule error'_def)
    ultimately have "spec_solver (50 * M_PI / 180) (m, error, Suc n) (m, error', Suc n)"
      using True by (rule spec_solver.converged)
    moreover have "loop_result (solver_loop M_PI (Suc n) m error) = (m, error', Suc n)"
      using True
      by (simp add: loop_result_def Let_def FIFTY_DEGREES_AS_RADIANS_def threshold_eq error'_def)
    ultimately show ?thesis by simp
  next
    case False
    have step: "solver_loop M_PI (Suc n) m error = solver_loop M_PI n (m + error' * 0.1) error'"
      using False
      by (simp add: Let_def FIFTY_DEGREES_AS_RADIANS_def threshold_eq error'_def
          CONSTRAINT_ERROR_TRANSFER_RATIO_def)
    have rest: "spec_solver (50 * M_PI / 180) (m + error' * 0.1, error', Suc n - 1)
            (loop_result (solver_loop M_PI n (m + error' * 0.1) error'))"
      using Suc.IH [of "m + error' * 0.1" error'] by simp
    have "0 < Suc n" by simp
    moreover have "error' = ConstraintTest m - 50 * M_PI / 180" by (rule error'_def)
    ultimately have "spec_solver (50 * M_PI / 180) (m, error, Suc n)
            (loop_result (solver_loop M_PI n (m + error' * 0.1) error'))"
      using False rest by (rule spec_solver.iterate)
    then show ?thesis by (simp only: step)
  qed
qed

lemma spec_solver_deterministic:
  "spec_solver target s r \<Longrightarrow> spec_solver target s r' \<Longrightarrow> r = r'"
proof (induction arbitrary: r' rule: spec_solver.induct)
  case (exhausted m error)
  then show ?case by (auto elim: spec_solver.cases)
next
  case (converged n error' m error)
  from converged.prems converged.hyps show ?case by (auto elim: spec_solver.cases)
next
  case (iterate n error' m s error)
  from iterate.prems iterate.hyps have "spec_solver target (m + error' * 0.1, error', n - 1) r'"
    by (auto elim: spec_solver.cases)
  then show ?case by (rule iterate.IH)
qed

text \<open>
  C2. The loop of \<^verbatim>\<open>main\<close> is the state machine of the specification, with the target
  \<open>50 * M_PI / 180\<close>: from every state \<open>(m, error, n)\<close> the machine has exactly one final
  state, the one the loop returns. So with iterations remaining the loop evaluates
  \<open>theta = ConstraintTest m\<close> and \<open>error = theta - target\<close>, stops with \<open>m\<close> unchanged when
  \<open>|error| \<le> 1e-10\<close>, and otherwise goes on from \<open>m + error * 0.1\<close> with one iteration
  less; with no iteration remaining it stops with the slope and the error it has.
  This holds for every value of \<^verbatim>\<open>M_PI\<close>.
\<close>

theorem solver_loop_refines_spec:
  "spec_solver (50 * M_PI / 180) (m, error, n) s
   = (s = loop_result (solver_loop M_PI n m error))"
proof
  assume run: "spec_solver (50 * M_PI / 180) (m, error, n) s"
  have "spec_solver (50 * M_PI / 180) (m, error, n) (loop_result (solver_loop M_PI n m error))"
    by (rule solver_loop_is_spec_run)
  with run show "s = loop_result (solver_loop M_PI n m error)"
    by (rule spec_solver_deterministic)
next
  assume "s = loop_result (solver_loop M_PI n m error)"
  then show "spec_solver (50 * M_PI / 180) (m, error, n) s"
    by (simp only: solver_loop_is_spec_run)
qed

text \<open>
  The theorem at \<open>M_PI = pi\<close>. With no iteration left the state itself is final and a
  state with another counter is not; from the initial state of \<^verbatim>\<open>main\<close> with one
  iteration allowed the machine ends where the loop does.
\<close>

theorem solver_loop_refines_spec_witness:
  "spec_solver (50 * pi / 180) (1, 0, 0) (1, 0, 0)
   \<and> \<not> spec_solver (50 * pi / 180) (1, 0, 0) (1, 0, 1)
   \<and> spec_solver (50 * pi / 180) (1, 0, 1) (loop_result (solver_loop pi 1 1 0))"
proof -
  have final: "spec_solver (50 * pi / 180) (1, 0, 0) (1, 0, 0)"
    using solver_loop_refines_spec [of pi 1 0 0 "(1, 0, 0)"]
    by (simp add: loop_result_def)
  have other: "\<not> spec_solver (50 * pi / 180) (1, 0, 0) (1, 0, 1)"
    using solver_loop_refines_spec [of pi 1 0 0 "(1, 0, 1)"]
    by (simp add: loop_result_def)
  have one: "spec_solver (50 * pi / 180) (1, 0, 1) (loop_result (solver_loop pi 1 1 0))"
    using solver_loop_refines_spec [of pi 1 0 1 "loop_result (solver_loop pi 1 1 0)"]
    by (simp only: refl)
  from final other one show ?thesis
    by blast
qed

section \<open>Properties of the long double arithmetic\<close>

lemma ld_ConstraintTest_locals:
  "ld_ConstraintTest acosl m = ld_vec2Angle acosl ld_CT_B (ld_CT_K m) (ld_CT_L m)"
  unfolding ld_ConstraintTest_def ld_CT_B_def ld_CT_K_def ld_CT_L_def ld_CT_i_def
    ld_CT_magnitudeA_def ld_CT_A_def ld_CT_j_def ld_CT_slopeK_def ld_CT_msqrt_def Let_def
  by (rule refl)

subsection \<open>Powers of two and binades\<close>

lemma pow2_pos: "0 < pow2 k"
  by (simp add: pow2_def zero_less_power_int)

lemma pow2_add: "pow2 (j + k) = pow2 j * pow2 k"
  by (simp add: pow2_def power_int_add)

lemma pow2_le: "j \<le> k \<Longrightarrow> pow2 j \<le> pow2 k"
  by (simp add: pow2_def power_int_increasing)

lemma pow2_less: "j < k \<Longrightarrow> pow2 j < pow2 k"
  by (simp add: pow2_def power_int_strict_increasing)

lemma pow2_le_D: "pow2 j \<le> pow2 k \<Longrightarrow> j \<le> k"
proof (rule ccontr)
  assume le: "pow2 j \<le> pow2 k" and "\<not> j \<le> k"
  then have "pow2 k < pow2 j"
    by (simp add: pow2_less)
  with le show False
    by simp
qed

lemma pow2_less_D: "pow2 j < pow2 k \<Longrightarrow> j < k"
proof (rule ccontr)
  assume less: "pow2 j < pow2 k" and "\<not> j < k"
  then have "pow2 k \<le> pow2 j"
    by (simp add: pow2_le)
  with less show False
    by simp
qed

lemma pow2_0: "pow2 0 = 1"
  by (simp add: pow2_def)

lemma pow2_suc: "pow2 (k + 1) = 2 * pow2 k"
  by (simp add: pow2_add [of k 1]) (simp add: pow2_def)

lemma pow2_int: "0 \<le> k \<Longrightarrow> pow2 k = of_int (2 ^ nat k)"
  by (simp add: pow2_def power_int_nonneg_exp)

lemma pow2_powr: "2 powr of_int k = pow2 k"
  by (simp add: pow2_def powr_real_of_int')


lemma floor_log2: "0 < a \<Longrightarrow> pow2 \<lfloor>log 2 a\<rfloor> \<le> a \<and> a < pow2 (\<lfloor>log 2 a\<rfloor> + 1)"
  using floor_log_eq_powr_iff [of a 2 "\<lfloor>log 2 a\<rfloor>"]
  by (simp only: pow2_powr) simp

lemma floor_log2_eq: "pow2 e \<le> a \<Longrightarrow> a < pow2 (e + 1) \<Longrightarrow> \<lfloor>log 2 a\<rfloor> = e"
proof -
  assume lo: "pow2 e \<le> a" and hi: "a < pow2 (e + 1)"
  from lo pow2_pos [of e] have "0 < a"
    by linarith
  then show ?thesis
    using floor_log_eq_powr_iff [of a 2 e] lo hi
    by (simp only: pow2_powr)
qed

lemma binade_sub: "a < pow2 ld_emin \<Longrightarrow> binade a = ld_emin"
  by (simp add: binade_def)

lemma binade_eq:
  assumes "ld_emin \<le> e" and "pow2 e \<le> a" and "a < pow2 (e + 1)"
  shows "binade a = e"
proof -
  from assms(1) have "pow2 ld_emin \<le> pow2 e"
    by (rule pow2_le)
  with assms(2) have "\<not> a < pow2 ld_emin"
    by linarith
  with assms(2,3) show ?thesis
    by (simp add: binade_def floor_log2_eq)
qed

lemma binade_normal:
  assumes "pow2 ld_emin \<le> a"
  shows "pow2 (binade a) \<le> a \<and> a < pow2 (binade a + 1) \<and> ld_emin \<le> binade a"
proof -
  from assms pow2_pos [of ld_emin] have pos: "0 < a"
    by linarith
  from assms have b: "binade a = \<lfloor>log 2 a\<rfloor>"
    by (simp add: binade_def)
  from pos have fl: "pow2 \<lfloor>log 2 a\<rfloor> \<le> a \<and> a < pow2 (\<lfloor>log 2 a\<rfloor> + 1)"
    by (rule floor_log2)
  with assms have "pow2 ld_emin < pow2 (\<lfloor>log 2 a\<rfloor> + 1)"
    by linarith
  then have "ld_emin < \<lfloor>log 2 a\<rfloor> + 1"
    by (rule pow2_less_D)
  with fl b show ?thesis
    by simp
qed

lemma binade_ge: "ld_emin \<le> binade a"
proof (cases "a < pow2 ld_emin")
  case True
  then show ?thesis by (simp add: binade_sub)
next
  case False
  then have "pow2 ld_emin \<le> a" by simp
  then show ?thesis by (simp add: binade_normal)
qed

lemma binade_upper: "a < pow2 (binade a + 1)"
proof (cases "a < pow2 ld_emin")
  case True
  have "pow2 ld_emin < pow2 (ld_emin + 1)"
    by (simp add: pow2_less)
  with True show ?thesis
    by (simp add: binade_sub)
next
  case False
  then have "pow2 ld_emin \<le> a" by simp
  then show ?thesis by (simp add: binade_normal)
qed

lemma ulp_pos: "0 < ulp a"
  by (simp add: ulp_def pow2_pos)

lemma ulp_ge: "pow2 (ld_emin - 63) \<le> ulp a"
  unfolding ulp_def using binade_ge [of a] by (intro pow2_le) simp

lemma emax_bound: "k \<le> ld_emax \<Longrightarrow> pow2 k < pow2 (ld_emax + 1)"
  by (simp add: pow2_less)

subsection \<open>Rounding to the nearest integer, ties to even\<close>

lemma rne_of_int: "rne (of_int n) = n"
  by (simp add: rne_def)

lemma rne_ge: "of_int n \<le> q \<Longrightarrow> n \<le> rne q"
proof -
  assume "of_int n \<le> q"
  then have "n \<le> \<lfloor>q\<rfloor>"
    by (simp add: le_floor_iff)
  then show ?thesis
    by (simp add: rne_def Let_def)
qed

lemma rne_le: "q \<le> of_int n \<Longrightarrow> rne q \<le> n"
proof (cases "q = of_int n")
  case True
  then show ?thesis by (simp add: rne_of_int)
next
  case False
  assume "q \<le> of_int n"
  with False have "q < of_int n" by simp
  then have "\<lfloor>q\<rfloor> < n"
    by (simp add: floor_less_iff)
  then show ?thesis
    by (simp add: rne_def Let_def)
qed

lemma rne_error: "\<bar>of_int (rne q) - q\<bar> \<le> 1 / 2"
proof -
  have "of_int \<lfloor>q\<rfloor> \<le> q" and "q < of_int \<lfloor>q\<rfloor> + 1"
    by linarith+
  then show ?thesis
    by (auto simp add: rne_def Let_def abs_le_iff)
qed

lemma rne_small: "0 \<le> q \<Longrightarrow> q < 1 / 2 \<Longrightarrow> rne q = 0"
proof -
  assume "0 \<le> q" and small: "q < 1 / 2"
  then have "\<lfloor>q\<rfloor> = 0"
    by (simp add: floor_eq_iff)
  with small show ?thesis
    by (simp add: rne_def Let_def)
qed

subsection \<open>Rounding of magnitudes\<close>

lemma round_mag_nonneg: "0 \<le> a \<Longrightarrow> 0 \<le> round_mag a"
proof -
  assume "0 \<le> a"
  with ulp_pos [of a] have "of_int 0 \<le> a / ulp a"
    by simp
  then have "0 \<le> rne (a / ulp a)"
    by (rule rne_ge)
  with ulp_pos [of a] show ?thesis
    by (simp add: round_mag_def)
qed

lemma round_mag_0: "round_mag 0 = 0"
  using rne_of_int [of 0] by (simp add: round_mag_def)

text \<open>A multiple of the unit in the last place of its own binade is left alone.\<close>

lemma round_mag_grid:
  assumes "a = pow2 (binade a - 63) * of_int k"
  shows "round_mag a = a"
proof -
  from assms have "a = ulp a * of_int k"
    by (simp only: ulp_def)
  with ulp_pos [of a] have "a / ulp a = of_int k"
    by (simp add: field_simps)
  then have "rne (a / ulp a) = k"
    by (simp only: rne_of_int)
  with \<open>a = ulp a * of_int k\<close> show ?thesis
    by (simp add: round_mag_def)
qed

lemma round_mag_pow2:
  assumes "ld_emin \<le> k"
  shows "round_mag (pow2 k) = pow2 k"
proof -
  have "pow2 k < pow2 (k + 1)"
    by (simp add: pow2_less)
  with assms have b: "binade (pow2 k) = k"
    by (intro binade_eq) simp_all
  have "pow2 k = pow2 ((k - 63) + 63)"
    by simp
  also have "\<dots> = pow2 (k - 63) * pow2 63"
    by (rule pow2_add)
  also have "pow2 63 = of_int (2 ^ nat 63)"
    by (rule pow2_int) simp
  finally have eq: "pow2 k = pow2 (k - 63) * of_int (2 ^ nat 63)" .
  have "pow2 k = pow2 (binade (pow2 k) - 63) * of_int (2 ^ nat 63)"
    unfolding b by (rule eq)
  then show ?thesis
    by (rule round_mag_grid)
qed

text \<open>Below half of the least subnormal number everything rounds to zero.\<close>

lemma round_mag_underflow:
  assumes "0 \<le> a" and "a < pow2 (ld_emin - 64)"
  shows "round_mag a = 0"
proof -
  have "pow2 (ld_emin - 64) < pow2 ld_emin"
    by (simp add: pow2_less)
  with assms have b: "binade a = ld_emin"
    by (intro binade_sub) simp
  have "pow2 (ld_emin - 63) = pow2 ((ld_emin - 64) + 1)"
    by simp
  also have "\<dots> = 2 * pow2 (ld_emin - 64)"
    by (rule pow2_suc)
  finally have u: "ulp a = 2 * pow2 (ld_emin - 64)"
    by (simp add: ulp_def b)
  from assms(2) pow2_pos [of "ld_emin - 64"] have "a / ulp a < 1 / 2"
    by (simp add: u field_simps)
  moreover from assms(1) ulp_pos [of a] have "0 \<le> a / ulp a"
    by simp
  ultimately have "rne (a / ulp a) = 0"
    by (intro rne_small)
  then show ?thesis
    by (simp add: round_mag_def)
qed

text \<open>Rounding never crosses a power of two.\<close>

lemma round_mag_le_pow2:
  assumes "0 \<le> a" and "a \<le> pow2 k" and "ld_emin \<le> k"
  shows "round_mag a \<le> pow2 k"
proof (cases "a = pow2 k")
  case True
  with assms(3) show ?thesis
    by (simp add: round_mag_pow2)
next
  case False
  with assms(2) have less: "a < pow2 k"
    by simp
  have "binade a \<le> k"
  proof (cases "a < pow2 ld_emin")
    case True
    with assms(3) show ?thesis by (simp add: binade_sub)
  next
    case False
    then have "pow2 (binade a) \<le> a"
      by (simp add: binade_normal)
    with less have "pow2 (binade a) < pow2 k"
      by linarith
    then have "binade a < k"
      by (rule pow2_less_D)
    then show ?thesis by simp
  qed
  then have nn: "0 \<le> k - (binade a - 63)"
    by simp
  have "pow2 k = pow2 ((binade a - 63) + (k - (binade a - 63)))"
    by simp
  also have "\<dots> = ulp a * pow2 (k - (binade a - 63))"
    by (simp only: pow2_add ulp_def)
  also have "pow2 (k - (binade a - 63)) = of_int (2 ^ nat (k - (binade a - 63)))"
    using nn by (rule pow2_int)
  finally have grid: "pow2 k = ulp a * of_int (2 ^ nat (k - (binade a - 63)))" .
  with assms(2) ulp_pos [of a] have "a / ulp a \<le> of_int (2 ^ nat (k - (binade a - 63)))"
    by (simp add: field_simps)
  then have "rne (a / ulp a) \<le> 2 ^ nat (k - (binade a - 63))"
    by (rule rne_le)
  then have "of_int (rne (a / ulp a)) \<le> (of_int (2 ^ nat (k - (binade a - 63))) :: real)"
    by (simp only: of_int_le_iff)
  with ulp_pos [of a] have "ulp a * of_int (rne (a / ulp a))
      \<le> ulp a * of_int (2 ^ nat (k - (binade a - 63)))"
    by (simp only: mult_le_cancel_left_pos)
  then show ?thesis
    by (simp only: round_mag_def grid [symmetric])
qed

lemma round_mag_ge_grid:
  assumes "pow2 k \<le> a" and "binade a - 63 \<le> k"
  shows "pow2 k \<le> round_mag a"
proof -
  from assms(2) have nn: "0 \<le> k - (binade a - 63)"
    by simp
  have "pow2 k = pow2 ((binade a - 63) + (k - (binade a - 63)))"
    by simp
  also have "\<dots> = ulp a * pow2 (k - (binade a - 63))"
    by (simp only: pow2_add ulp_def)
  also have "pow2 (k - (binade a - 63)) = of_int (2 ^ nat (k - (binade a - 63)))"
    using nn by (rule pow2_int)
  finally have grid: "pow2 k = ulp a * of_int (2 ^ nat (k - (binade a - 63)))" .
  with assms(1) ulp_pos [of a] have "of_int (2 ^ nat (k - (binade a - 63))) \<le> a / ulp a"
    by (simp add: field_simps)
  then have "2 ^ nat (k - (binade a - 63)) \<le> rne (a / ulp a)"
    by (rule rne_ge)
  then have "(of_int (2 ^ nat (k - (binade a - 63))) :: real) \<le> of_int (rne (a / ulp a))"
    by (simp only: of_int_le_iff)
  with ulp_pos [of a] have "ulp a * of_int (2 ^ nat (k - (binade a - 63)))
      \<le> ulp a * of_int (rne (a / ulp a))"
    by (simp only: mult_le_cancel_left_pos)
  then show ?thesis
    by (simp only: round_mag_def grid [symmetric])
qed

lemma round_mag_ge_pow2:
  assumes "pow2 k \<le> a" and "ld_emin - 63 \<le> k"
  shows "pow2 k \<le> round_mag a"
proof (cases "binade a - 63 \<le> k")
  case True
  with assms(1) show ?thesis
    by (rule round_mag_ge_grid)
next
  case False
  with assms(2) have "ld_emin < binade a"
    by simp
  then have "\<not> a < pow2 ld_emin"
    using binade_sub [of a] by auto
  then have "pow2 (binade a) \<le> a"
    by (simp add: binade_normal)
  then have "pow2 (binade a) \<le> round_mag a"
    by (rule round_mag_ge_grid) simp
  moreover from False have "pow2 k \<le> pow2 (binade a)"
    by (intro pow2_le) simp
  ultimately show ?thesis
    by linarith
qed

text \<open>The result of rounding is itself on the grid: rounding again changes nothing.\<close>

lemma round_mag_idem:
  assumes "0 \<le> a"
  shows "round_mag (round_mag a) = round_mag a"
proof -
  let ?e = "binade a"
  let ?k = "rne (a / ulp a)"
  have y: "round_mag a = pow2 (?e - 63) * of_int ?k"
    by (simp only: round_mag_def ulp_def)
  have e: "ld_emin \<le> ?e"
    by (rule binade_ge)
  have up: "round_mag a \<le> pow2 (?e + 1)"
    using assms binade_upper [of a] e by (intro round_mag_le_pow2) simp_all
  show ?thesis
  proof (cases "round_mag a = pow2 (?e + 1)")
    case True
    from e have "round_mag (pow2 (?e + 1)) = pow2 (?e + 1)"
      by (intro round_mag_pow2) simp
    with True show ?thesis
      by simp
  next
    case False
    with up have less: "round_mag a < pow2 (?e + 1)"
      by simp
    have "binade (round_mag a) = ?e"
    proof (cases "a < pow2 ld_emin")
      case True
      then have b: "?e = ld_emin"
        by (rule binade_sub)
      show ?thesis
      proof (cases "round_mag a < pow2 ld_emin")
        case True
        then show ?thesis by (simp add: binade_sub b)
      next
        case False
        then have "pow2 ld_emin \<le> round_mag a" by simp
        with less show ?thesis
          unfolding b by (intro binade_eq) simp_all
      qed
    next
      case False
      then have "pow2 ?e \<le> a"
        by (simp add: binade_normal)
      then have "pow2 ?e \<le> round_mag a"
        by (rule round_mag_ge_grid) simp
      with e less show ?thesis
        by (intro binade_eq)
    qed
    with y have "round_mag a = pow2 (binade (round_mag a) - 63) * of_int ?k"
      by simp
    then show ?thesis
      by (rule round_mag_grid)
  qed
qed

text \<open>What rounding can return: zero, or at least the least subnormal number.\<close>

lemma round_mag_range:
  assumes "0 \<le> a"
  shows "round_mag a = 0 \<or> pow2 (ld_emin - 63) \<le> round_mag a"
proof (cases "rne (a / ulp a) = 0")
  case True
  then show ?thesis by (simp add: round_mag_def)
next
  case False
  from assms ulp_pos [of a] have "of_int 0 \<le> a / ulp a"
    by simp
  then have "0 \<le> rne (a / ulp a)"
    by (rule rne_ge)
  with False have "1 \<le> rne (a / ulp a)"
    by simp
  then have "(1::real) \<le> of_int (rne (a / ulp a))"
    by simp
  with ulp_pos [of a] have "ulp a * 1 \<le> ulp a * of_int (rne (a / ulp a))"
    by (simp only: mult_le_cancel_left_pos)
  with ulp_ge [of a] show ?thesis
    by (simp add: round_mag_def)
qed

lemma round_mag_pos:
  assumes "pow2 (ld_emin - 63) \<le> a"
  shows "0 < round_mag a"
proof -
  from assms have "pow2 (ld_emin - 63) \<le> round_mag a"
    by (rule round_mag_ge_pow2) simp
  with pow2_pos [of "ld_emin - 63"] show ?thesis
    by linarith
qed

lemma round_mag_int:
  assumes "0 \<le> n" and "n < 2 ^ 64"
  shows "round_mag (of_int n) = of_int n"
proof (cases "n = 0")
  case True
  then show ?thesis by (simp add: round_mag_0)
next
  case False
  let ?a = "of_int n :: real"
  let ?e = "binade ?a"
  from False assms(1) have one: "pow2 0 \<le> ?a"
    by (simp add: pow2_0)
  have "pow2 ld_emin \<le> pow2 0"
    by (intro pow2_le) (simp add: ld_emin_def)
  with one have "pow2 ld_emin \<le> ?a"
    by linarith
  then have lo: "pow2 ?e \<le> ?a" and hi: "?a < pow2 (?e + 1)"
    by (simp_all add: binade_normal)
  from one hi have "pow2 0 < pow2 (?e + 1)"
    by linarith
  then have e0: "0 < ?e + 1"
    by (rule pow2_less_D)
  have "pow2 64 = of_int (2 ^ nat 64)"
    by (rule pow2_int) simp
  with assms(2) have "?a < pow2 64"
    by simp
  with lo have "pow2 ?e < pow2 64"
    by linarith
  then have e64: "?e < 64"
    by (rule pow2_less_D)
  then have p: "pow2 (63 - ?e) = of_int (2 ^ nat (63 - ?e))"
    by (intro pow2_int) simp
  have "pow2 (?e - 63) * pow2 (63 - ?e) = pow2 ((?e - 63) + (63 - ?e))"
    by (simp only: pow2_add)
  also have "\<dots> = 1"
    by (simp add: pow2_0)
  finally have "?a = pow2 (?e - 63) * (pow2 (63 - ?e) * ?a)"
    by simp
  then have "?a = pow2 (?e - 63) * of_int (2 ^ nat (63 - ?e) * n)"
    by (simp only: p of_int_mult)
  then show ?thesis
    by (rule round_mag_grid)
qed

subsection \<open>Rounded results\<close>

lemma is_ld_round: "0 \<le> a \<Longrightarrow> is_ld (ld_round s a)"
  by (simp add: ld_round_def round_mag_nonneg round_mag_idem)

lemma ld_round_0: "ld_round s 0 = Finite s 0"
  using pow2_pos [of "ld_emax + 1"] by (simp add: ld_round_def round_mag_0)


lemma ld_round_overflow:
  assumes "pow2 (ld_emax + 1) \<le> a"
  shows "ld_round s a = Infinity s"
proof -
  have "ld_emin - 63 \<le> ld_emax + 1"
    by (simp add: ld_emin_def ld_emax_def)
  with assms have "pow2 (ld_emax + 1) \<le> round_mag a"
    by (rule round_mag_ge_pow2)
  then show ?thesis
    by (simp add: ld_round_def)
qed

lemma ld_round_underflow:
  assumes "0 \<le> a" and "a < pow2 (ld_emin - 64)"
  shows "ld_round s a = Finite s 0"
  using assms pow2_pos [of "ld_emax + 1"] by (simp add: ld_round_def round_mag_underflow)

lemma ld_round_finite_below:
  assumes "0 \<le> a" and "a \<le> pow2 k" and "ld_emin \<le> k" and "k \<le> ld_emax"
  shows "ld_round s a = Finite s (round_mag a)"
proof -
  from assms(1-3) have "round_mag a \<le> pow2 k"
    by (rule round_mag_le_pow2)
  with emax_bound [OF assms(4)] show ?thesis
    by (simp add: ld_round_def)
qed

lemma ld_round_int:
  assumes "0 \<le> n" and "n < 2 ^ 64"
  shows "ld_round s (of_int n) = Finite s (of_int n)"
proof -
  have "pow2 64 = of_int (2 ^ nat 64)"
    by (rule pow2_int) simp
  with assms(2) have "of_int n < pow2 64"
    by simp
  moreover have "pow2 64 < pow2 (ld_emax + 1)"
    by (intro pow2_less) (simp add: ld_emax_def)
  ultimately have "\<not> pow2 (ld_emax + 1) \<le> of_int n"
    by linarith
  with assms show ?thesis
    by (simp add: ld_round_def round_mag_int)
qed

lemma is_ld_int:
  assumes "0 \<le> n" and "n < 2 ^ 64"
  shows "is_ld (Finite s (of_int n))"
  using is_ld_round [of "of_int n" s] assms by (simp add: ld_round_int)


lemma ld_round_1: "ld_round s 1 = Finite s 1"
  using ld_round_int [of 1 s] by simp

lemma ld_round_2: "ld_round s 2 = Finite s 2"
  using ld_round_int [of 2 s] by simp

lemma ld_finite_pow2:
  assumes "ld_emin \<le> k" and "k \<le> ld_emax"
  shows "ld_finite (Finite s (pow2 k))"
  using assms(1) emax_bound [OF assms(2)] pow2_pos [of k]
  by (simp add: round_mag_pow2)

lemma ld_add_round_inf: "ld_add (ld_round False a) (Infinity False) = Infinity False"
  by (simp add: ld_round_def)

subsection \<open>The operations return long double values\<close>




lemma is_ld_sqrt: "is_ld u \<Longrightarrow> is_ld (ld_sqrt u)"
  by (cases u) (simp_all add: is_ld_round round_mag_0 pow2_pos)



subsection \<open>Sums and roots of rounded non-negative numbers\<close>

lemma ld_rounded_round: "0 \<le> a \<Longrightarrow> ld_rounded (ld_round False a)"
  using round_mag_range [of a] by (auto simp add: ld_rounded_def ld_round_def)

lemma ld_rounded_ge_zero: "ld_rounded w \<Longrightarrow> ld_ge_zero w"
  using pow2_pos [of "ld_emin - 63"] by (auto simp add: ld_rounded_def)

lemma ld_rounded_add:
  assumes "ld_rounded u" and "ld_rounded w"
  shows "ld_rounded (ld_add u w) \<and> ld_is_zero (ld_add u w) = (ld_is_zero u \<and> ld_is_zero w)"
proof (cases "u = Infinity False \<or> w = Infinity False")
  case True
  with assms show ?thesis
    by (auto simp add: ld_rounded_def)
next
  case False
  with assms obtain p q where u: "u = Finite False p" and w: "w = Finite False q"
    and p: "p = 0 \<or> pow2 (ld_emin - 63) \<le> p" and q: "q = 0 \<or> pow2 (ld_emin - 63) \<le> q"
    by (auto simp add: ld_rounded_def)
  from p q pow2_pos [of "ld_emin - 63"] have nn: "0 \<le> p" "0 \<le> q"
    by auto
  show ?thesis
  proof (cases "p + q = 0")
    case True
    with nn have "p = 0" and "q = 0"
      by simp_all
    then show ?thesis
      by (simp add: u w ld_rounded_def)
  next
    case False
    with nn p q have big: "pow2 (ld_emin - 63) \<le> p + q"
      by auto
    from nn have sum: "ld_add u w = ld_round False (p + q)"
      using False by (simp add: u w Let_def)
    from big have "0 < round_mag (p + q)"
      by (rule round_mag_pos)
    then have "\<not> ld_is_zero (ld_round False (p + q))"
      by (simp add: ld_round_def)
    moreover from nn have "ld_rounded (ld_round False (p + q))"
      by (intro ld_rounded_round) simp
    moreover from False nn have "\<not> (p = 0 \<and> q = 0)"
      by simp
    ultimately show ?thesis
      by (simp add: sum) (simp add: u w)
  qed
qed

lemma sqrt_ge_least:
  assumes "pow2 (ld_emin - 63) \<le> p"
  shows "pow2 (ld_emin - 63) \<le> sqrt p"
proof (cases "1 \<le> p")
  case True
  then have "sqrt 1 \<le> sqrt p"
    by (simp only: real_sqrt_le_iff)
  moreover have "pow2 (ld_emin - 63) \<le> pow2 0"
    by (intro pow2_le) (simp add: ld_emin_def)
  ultimately show ?thesis
    unfolding pow2_0 real_sqrt_one by linarith
next
  case False
  from assms pow2_pos [of "ld_emin - 63"] have pos: "0 < p"
    by linarith
  with False have "p * p \<le> p * 1"
    by (intro mult_left_mono) simp_all
  then have "sqrt (p * p) \<le> sqrt p"
    by (simp only: real_sqrt_le_iff mult_1_right)
  with pos have "p \<le> sqrt p"
    by simp
  with assms show ?thesis
    by linarith
qed

lemma ld_rounded_sqrt:
  assumes "ld_rounded u"
  shows "ld_rounded (ld_sqrt u) \<and> ld_is_zero (ld_sqrt u) = ld_is_zero u"
proof (cases "u = Infinity False")
  case True
  then show ?thesis
    by (simp add: ld_rounded_def)
next
  case False
  with assms obtain p where u: "u = Finite False p"
    and p: "p = 0 \<or> pow2 (ld_emin - 63) \<le> p"
    by (auto simp add: ld_rounded_def)
  show ?thesis
  proof (cases "p = 0")
    case True
    then show ?thesis
      by (simp add: u ld_rounded_def)
  next
    case False
    with p have "pow2 (ld_emin - 63) \<le> sqrt p"
      by (intro sqrt_ge_least) simp
    then have "0 < round_mag (sqrt p)"
      by (rule round_mag_pos)
    then have "\<not> ld_is_zero (ld_round False (sqrt p))"
      by (simp add: ld_round_def)
    moreover from p pow2_pos [of "ld_emin - 63"] have "0 \<le> sqrt p"
      by auto
    then have "ld_rounded (ld_round False (sqrt p))"
      by (rule ld_rounded_round)
    ultimately show ?thesis
      using False by (simp add: u)
  qed
qed

lemma ld_rounded_square:
  assumes "ld_finite u"
  shows "ld_rounded (ld_mul u u)"
proof -
  from assms obtain s a where u: "u = Finite s a"
    by (cases u) simp_all
  have "ld_mul u u = ld_round False (a * a)"
    by (simp add: u)
  moreover have "ld_rounded (ld_round False (a * a))"
    by (intro ld_rounded_round) simp
  ultimately show ?thesis
    by simp
qed

lemma ld_is_zero_square: "ld_is_zero u \<Longrightarrow> ld_is_zero (ld_mul u u)"
  by (cases u) (simp_all add: ld_round_0)

subsection \<open>The evaluator at the slope \<open>2^9000\<close>\<close>

lemma huge_finite: "ld_finite huge \<and> \<not> ld_is_zero huge"
proof -
  have "ld_finite (Finite False (pow2 9000))"
    by (rule ld_finite_pow2) (simp_all add: ld_emin_def ld_emax_def)
  moreover have "pow2 9000 \<noteq> 0"
    using pow2_pos [of 9000] by simp
  ultimately show ?thesis
    by (simp add: huge_def)
qed

lemma huge_square: "ld_mul huge huge = Infinity False"
proof -
  have "pow2 (ld_emax + 1) \<le> pow2 (9000 + 9000)"
    by (intro pow2_le) (simp add: ld_emax_def)
  also have "pow2 (9000 + 9000) = pow2 9000 * pow2 9000"
    by (rule pow2_add)
  finally have "ld_round False (pow2 9000 * pow2 9000) = Infinity False"
    by (rule ld_round_overflow)
  then show ?thesis
    by (simp add: huge_def)
qed

lemma huge_msqrt: "ld_sqrt (ld_add (ld_mul huge huge) ld_one) = Infinity False"
  by (simp add: huge_square ld_one_def)

lemma huge_K: "ld_CT_K huge = \<lparr>ld_x = Finite False 1, ld_y = Finite False 0\<rparr>"
  by (simp add: ld_CT_K_def huge_msqrt) (simp add: ld_one_def huge_def ld_sub_def Let_def ld_round_1)






subsection \<open>The evaluator at the slope \<open>0\<close>\<close>

text \<open>
  At \<open>m = +0\<close> the point \<open>K\<close> is \<open>(0, 0)\<close>, the division by \<open>m\<close> in \<^verbatim>\<open>slopeK\<close> gives \<open>+inf\<close>, so do
  \<^verbatim>\<open>magnitudeA\<close> and \<^verbatim>\<open>i\<close>, both coordinates of \<open>L\<close> are \<open>inf / inf\<close>, and \<^verbatim>\<open>acosl\<close> is called on a
  NaN.  No operation stops the evaluation.
\<close>

lemma zero_msqrt: "ld_CT_msqrt (Finite False 0) = Finite False 1"
  by (simp add: ld_CT_msqrt_def ld_zero_def ld_one_def ld_round_0 ld_round_1)

lemma zero_K: "ld_CT_K (Finite False 0) = \<lparr>ld_x = Finite False 0, ld_y = Finite False 0\<rparr>"
  by (simp add: ld_CT_K_def ld_zero_def ld_one_def ld_sub_def ld_round_0 ld_round_1)

lemma zero_slopeK: "ld_CT_slopeK (Finite False 0) = Infinity False"
  by (simp add: ld_CT_slopeK_def zero_msqrt ld_zero_def ld_one_def ld_round_2)

lemma zero_magnitudeA: "ld_CT_magnitudeA (Finite False 0) = Infinity False"
  by (simp add: ld_CT_magnitudeA_def ld_CT_A_def zero_slopeK ld_vec2Magnitude_def ld_half_def
      ld_add_round_inf)

lemma zero_i: "ld_CT_i (Finite False 0) = Infinity False"
  by (simp add: ld_CT_i_def ld_CT_j_def zero_magnitudeA zero_K ld_two_def ld_sub_def ld_round_0)

lemma zero_L: "ld_CT_L (Finite False 0) = \<lparr>ld_x = NaN, ld_y = NaN\<rparr>"
  by (simp add: ld_CT_L_def zero_i zero_magnitudeA ld_CT_A_def zero_slopeK ld_half_def ld_one_def
      ld_sub_def)

lemma ld_ConstraintTest_at_zero: "ld_ConstraintTest acosl ld_zero = acosl NaN"
  by (simp add: ld_ConstraintTest_locals zero_K zero_L ld_vec2Angle_def ld_vec2Subtract_def
      ld_vec2Dot_def ld_vec2Magnitude_def ld_CT_B_def ld_sub_def ld_one_def ld_zero_def Let_def
      ld_round_0 ld_round_1)

lemma ld_square_underflow: "ld_round False (pow2 (- 9000) * pow2 (- 9000)) = Finite False 0"
proof -
  have "pow2 (- 9000) * pow2 (- 9000) = pow2 (- 9000 + - 9000)"
    by (simp only: pow2_add)
  also have "\<dots> < pow2 (ld_emin - 64)"
    by (intro pow2_less) (simp add: ld_emin_def)
  finally have "pow2 (- 9000) * pow2 (- 9000) < pow2 (ld_emin - 64)" .
  moreover have "0 \<le> pow2 (- 9000) * pow2 (- 9000)"
    by simp
  ultimately show ?thesis
    by (intro ld_round_underflow)
qed

section \<open>Lengths in long double arithmetic\<close>

text \<open>
  C9, as the code has it. For every vector \<open>v\<close> of finite long doubles, the magnitude
  is \<^verbatim>\<open>sqrtl\<close> of the dot product of \<open>v\<close> with itself, it compares \<open>>= 0\<close> (it is a
  non-negative number or \<open>+inf\<close>, never NaN), and it is zero for the zero vector. It is
  zero exactly when both squares \<open>x*x\<close> and \<open>y*y\<close> round to zero, which is more than the
  zero vector: a component below \<open>2^-8223\<close> in magnitude has a square that underflows.
\<close>

theorem ld_vec2Magnitude_norm:
  assumes "ld_finite (ld_x v)" and "ld_finite (ld_y v)"
  shows "ld_vec2Magnitude v = ld_sqrt (ld_vec2Dot v v)
    \<and> ld_ge_zero (ld_vec2Magnitude v)
    \<and> (ld_is_zero (ld_x v) \<and> ld_is_zero (ld_y v) \<longrightarrow> ld_is_zero (ld_vec2Magnitude v))
    \<and> ld_is_zero (ld_vec2Magnitude v)
        = (ld_is_zero (ld_mul (ld_x v) (ld_x v)) \<and> ld_is_zero (ld_mul (ld_y v) (ld_y v)))"
proof -
  let ?xx = "ld_mul (ld_x v) (ld_x v)" and ?yy = "ld_mul (ld_y v) (ld_y v)"
  have same: "ld_vec2Magnitude v = ld_sqrt (ld_vec2Dot v v)"
    by (simp only: ld_vec2Magnitude_def ld_vec2Dot_def)
  from assms have xx: "ld_rounded ?xx" and yy: "ld_rounded ?yy"
    by (simp_all only: ld_rounded_square)
  then have sum: "ld_rounded (ld_add ?xx ?yy)"
    and sum0: "ld_is_zero (ld_add ?xx ?yy) = (ld_is_zero ?xx \<and> ld_is_zero ?yy)"
    by (simp_all only: ld_rounded_add)
  from sum have root: "ld_rounded (ld_sqrt (ld_add ?xx ?yy))"
    and root0: "ld_is_zero (ld_sqrt (ld_add ?xx ?yy)) = ld_is_zero (ld_add ?xx ?yy)"
    by (simp_all only: ld_rounded_sqrt)
  from root have ge: "ld_ge_zero (ld_vec2Magnitude v)"
    unfolding ld_vec2Magnitude_def by (rule ld_rounded_ge_zero)
  from root0 sum0 have iff: "ld_is_zero (ld_vec2Magnitude v) = (ld_is_zero ?xx \<and> ld_is_zero ?yy)"
    by (simp only: ld_vec2Magnitude_def)
  from iff
  have zero: "ld_is_zero (ld_x v) \<and> ld_is_zero (ld_y v) \<longrightarrow> ld_is_zero (ld_vec2Magnitude v)"
    by (simp add: ld_is_zero_square)
  from same ge zero iff show ?thesis
    by blast
qed

text \<open>
  The theorem at the vector \<open>(3, 4)\<close>, whose magnitude is \<open>5\<close>.
\<close>

theorem ld_vec2Magnitude_norm_witness:
  "ld_finite (Finite False 3) \<and> ld_finite (Finite False 4)
   \<and> ld_vec2Magnitude \<lparr>ld_x = Finite False 3, ld_y = Finite False 4\<rparr> = Finite False 5
   \<and> ld_ge_zero (ld_vec2Magnitude \<lparr>ld_x = Finite False 3, ld_y = Finite False 4\<rparr>)
   \<and> \<not> ld_is_zero (ld_mul (Finite False 3) (Finite False 3))"
proof -
  have three: "ld_finite (Finite False 3)"
    using is_ld_int [of 3 False] by simp
  have four: "ld_finite (Finite False 4)"
    using is_ld_int [of 4 False] by simp
  have nine: "ld_round False 9 = Finite False 9"
    using ld_round_int [of 9 False] by simp
  have sixteen: "ld_round False 16 = Finite False 16"
    using ld_round_int [of 16 False] by simp
  have twentyfive: "ld_round False 25 = Finite False 25"
    using ld_round_int [of 25 False] by simp
  have five: "ld_round False 5 = Finite False 5"
    using ld_round_int [of 5 False] by simp
  have "sqrt 25 = sqrt (5 * 5)"
    by simp
  then have root: "sqrt 25 = 5"
    by (simp only: real_sqrt_mult_self) simp
  have mag: "ld_vec2Magnitude \<lparr>ld_x = Finite False 3, ld_y = Finite False 4\<rparr> = Finite False 5"
    by (simp add: ld_vec2Magnitude_def nine sixteen twentyfive Let_def root five)
  let ?v = "\<lparr>ld_x = Finite False 3, ld_y = Finite False 4\<rparr>"
  have h1: "ld_finite (ld_x ?v)" and h2: "ld_finite (ld_y ?v)"
    using three four by simp_all
  from ld_vec2Magnitude_norm [OF h1 h2] have ge: "ld_ge_zero (ld_vec2Magnitude ?v)"
    by blast
  have "\<not> ld_is_zero (ld_mul (Finite False 3) (Finite False 3))"
    by (simp add: nine)
  with three four mag ge show ?thesis
    by blast
qed

text \<open>
  C9 as the specification states it, "exactly 0 only for the zero vector", fails at
  the finite vector \<open>(2^-9000, 0)\<close>: the square \<open>2^-18000\<close> is below half of the least
  subnormal number and rounds to zero, and so does the magnitude.
\<close>

theorem ld_vec2Magnitude_underflow:
  "ld_finite (Finite False (pow2 (- 9000))) \<and> ld_finite (Finite False 0)
   \<and> \<not> ld_is_zero (Finite False (pow2 (- 9000)))
   \<and> ld_vec2Magnitude \<lparr>ld_x = Finite False (pow2 (- 9000)), ld_y = Finite False 0\<rparr>
       = Finite False 0
   \<and> ld_is_zero
        (ld_vec2Magnitude \<lparr>ld_x = Finite False (pow2 (- 9000)), ld_y = Finite False 0\<rparr>)"
proof -
  have fin: "ld_finite (Finite False (pow2 (- 9000)))"
    by (rule ld_finite_pow2) (simp_all add: ld_emin_def ld_emax_def)
  have zero: "ld_finite (Finite False 0)"
    using pow2_pos [of "ld_emax + 1"] by (simp add: round_mag_0)
  have nz: "\<not> ld_is_zero (Finite False (pow2 (- 9000)))"
    using pow2_pos [of "- 9000"] by simp
  have "ld_vec2Magnitude \<lparr>ld_x = Finite False (pow2 (- 9000)), ld_y = Finite False 0\<rparr>
      = ld_sqrt (ld_add (Finite False 0) (ld_round False 0))"
    by (simp add: ld_vec2Magnitude_def ld_square_underflow)
  also have "\<dots> = Finite False 0"
    by (simp add: ld_round_0)
  finally have mag: "ld_vec2Magnitude
      \<lparr>ld_x = Finite False (pow2 (- 9000)), ld_y = Finite False 0\<rparr> = Finite False 0" .
  have "ld_is_zero
      (ld_vec2Magnitude \<lparr>ld_x = Finite False (pow2 (- 9000)), ld_y = Finite False 0\<rparr>)"
    unfolding mag by simp
  with mag fin zero nz show ?thesis
    by blast
qed

subsection \<open>The length of \<open>A - B\<close>\<close>












subsection \<open>The lengths of \<open>CB\<close> and \<open>BK\<close>\<close>

text \<open>
  The error of a rounding is at most half a unit in the last place: at most the
  \<open>2^64\<close>-th part of the number in the normal range, and at most \<open>2^-16446\<close> below it.
\<close>

lemma pow2_minus_64: "pow2 (- 64) = 1 / 2 ^ 64"
  by (simp add: pow2_def power_int_minus_divide)

lemma round_error:
  assumes "0 \<le> a"
  shows "\<bar>round_mag a - a\<bar> \<le> a / 2 ^ 64 + pow2 (ld_emin - 64)"
proof -
  let ?u = "ulp a"
  let ?k = "of_int (rne (a / ?u)) :: real"
  have "\<bar>?k - a / ?u\<bar> \<le> 1 / 2"
    by (rule rne_error)
  with ulp_pos [of a] have "?u * \<bar>?k - a / ?u\<bar> \<le> ?u * (1 / 2)"
    by (simp only: mult_le_cancel_left_pos)
  moreover have "?u * ?k - a = ?u * (?k - a / ?u)"
    using ulp_pos [of a] by (simp add: right_diff_distrib)
  then have "\<bar>?u * ?k - a\<bar> = ?u * \<bar>?k - a / ?u\<bar>"
    by (simp only: abs_mult abs_of_pos [OF ulp_pos])
  ultimately have half: "\<bar>round_mag a - a\<bar> \<le> ?u / 2"
    by (simp add: round_mag_def)
  have "pow2 (binade a - 63) = pow2 ((binade a - 64) + 1)"
    by simp
  also have "\<dots> = 2 * pow2 (binade a - 64)"
    by (rule pow2_suc)
  finally have u: "?u / 2 = pow2 (binade a - 64)"
    by (simp add: ulp_def)
  show ?thesis
  proof (cases "a < pow2 ld_emin")
    case True
    then have "?u / 2 = pow2 (ld_emin - 64)"
      by (simp add: u binade_sub)
    with half assms show ?thesis
      by simp
  next
    case False
    then have lo: "pow2 (binade a) \<le> a"
      by (simp add: binade_normal)
    have "pow2 (binade a - 64) = pow2 (binade a + - 64)"
      by simp
    also have "\<dots> = pow2 (binade a) * (1 / 2 ^ 64)"
      by (simp only: pow2_add pow2_minus_64)
    also from lo have "\<dots> \<le> a * (1 / 2 ^ 64)"
      by (intro mult_right_mono) simp_all
    finally have "?u / 2 \<le> a / 2 ^ 64"
      by (simp add: u)
    with half pow2_pos [of "ld_emin - 64"] show ?thesis
      by linarith
  qed
qed

lemma eta_small: "pow2 (ld_emin - 64) \<le> 1 / 2 ^ 128"
proof -
  have "pow2 (ld_emin - 64) \<le> pow2 (- 128)"
    by (intro pow2_le) (simp add: ld_emin_def)
  also have "pow2 (- 128) = 1 / 2 ^ 128"
    by (simp add: pow2_def power_int_minus_divide)
  finally show ?thesis .
qed

text \<open>The error of one rounding, for a number that is at most two.\<close>

lemma round_error_small:
  assumes "0 \<le> a" and "a \<le> 2"
  shows "\<bar>round_mag a - a\<bar> \<le> 3 / 2 ^ 64"
proof -
  from assms(1) have "\<bar>round_mag a - a\<bar> \<le> a / 2 ^ 64 + pow2 (ld_emin - 64)"
    by (rule round_error)
  moreover from assms(2) have "a / 2 ^ 64 \<le> 2 / 2 ^ 64"
    by simp
  moreover have "pow2 (ld_emin - 64) \<le> 1 / 2 ^ 128"
    by (rule eta_small)
  moreover have "(1::real) / 2 ^ 128 \<le> 1 / 2 ^ 64"
    by simp
  ultimately show ?thesis
    by linarith
qed

text \<open>The relative error of one rounding, for a number that is at least one.\<close>

lemma round_error_rel:
  assumes "1 \<le> a"
  shows "a * (1 - 2 / 2 ^ 64) \<le> round_mag a \<and> round_mag a \<le> a * (1 + 2 / 2 ^ 64)"
proof -
  from assms have "\<bar>round_mag a - a\<bar> \<le> a / 2 ^ 64 + pow2 (ld_emin - 64)"
    by (intro round_error) simp
  moreover have "pow2 (ld_emin - 64) \<le> 1 / 2 ^ 128"
    by (rule eta_small)
  moreover have "(1::real) / 2 ^ 128 \<le> 1 / 2 ^ 64"
    by simp
  moreover from assms have "1 / 2 ^ 64 \<le> a / 2 ^ 64"
    by simp
  ultimately have "\<bar>round_mag a - a\<bar> \<le> 2 * (a / 2 ^ 64)"
    by linarith
  then have "a - 2 * (a / 2 ^ 64) \<le> round_mag a" and "round_mag a \<le> a + 2 * (a / 2 ^ 64)"
    by linarith+
  then show ?thesis
    by (simp add: algebra_simps)
qed

lemma msqrt_arg_pos': "0 < 1 + a * (a::real)"
proof -
  have "0 \<le> a * a" by simp
  then show ?thesis by linarith
qed

lemma round_near:
  assumes "0 \<le> a" and "a \<le> 2"
  shows "a - 3 / 2 ^ 64 \<le> round_mag a" and "round_mag a \<le> a + 3 / 2 ^ 64"
proof -
  from assms have "\<bar>round_mag a - a\<bar> \<le> 3 / 2 ^ 64"
    by (rule round_error_small)
  then show "a - 3 / 2 ^ 64 \<le> round_mag a" and "round_mag a \<le> a + 3 / 2 ^ 64"
    by (simp_all only: abs_le_iff) simp_all
qed

lemma round_unit:
  assumes "0 \<le> a" and "a \<le> 1"
  shows "0 \<le> round_mag a" and "round_mag a \<le> 1"
proof -
  from assms(1) show "0 \<le> round_mag a"
    by (rule round_mag_nonneg)
  from assms have "round_mag a \<le> pow2 0"
    by (intro round_mag_le_pow2) (simp_all add: pow2_0 ld_emin_def)
  then show "round_mag a \<le> 1"
    by (simp only: pow2_0)
qed

lemma root_facts:
  assumes "0 \<le> a"
  shows "1 \<le> sqrt (1 + a * a)" and "a \<le> sqrt (1 + a * a)"
proof -
  have "sqrt 1 \<le> sqrt (1 + a * a)"
    by (rule real_sqrt_le_mono) simp
  then show "1 \<le> sqrt (1 + a * a)"
    by (simp only: real_sqrt_one)
  have "sqrt (a * a) \<le> sqrt (1 + a * a)"
    by (rule real_sqrt_le_mono) simp
  with assms show "a \<le> sqrt (1 + a * a)"
    by simp
qed

lemma abs_two_sided:
  fixes z y c :: real
  assumes "\<bar>z - y\<bar> \<le> c"
  shows "y - c \<le> z" and "z \<le> y + c"
  using assms by (simp_all add: abs_le_iff)

lemma add_errors:
  fixes x y z c d k :: real
  assumes "x - c \<le> y" and "y \<le> x + c" and "y - d \<le> z" and "z \<le> y + d" and "c + d \<le> k"
  shows "x - k \<le> z" and "z \<le> x + k"
  using assms by simp_all

text \<open>
  The roundings of \<open>|BK|\<close> one after the other. With \<open>R = sqrt (1 + a*a)\<close> the exact
  coordinates of \<open>B - K\<close> are \<open>1/R\<close> and \<open>a/R\<close>, and their squares add up to one.
\<close>

lemma bk_mm_bounds:
  assumes "0 \<le> a"
  shows "0 \<le> bk_mm a" and "\<bar>bk_mm a - a * a\<bar> \<le> a * a / 2 ^ 64 + 1 / 2 ^ 128"
proof -
  show "0 \<le> bk_mm a"
    unfolding bk_mm_def by (rule round_mag_nonneg) simp
  have "\<bar>bk_mm a - a * a\<bar> \<le> a * a / 2 ^ 64 + pow2 (ld_emin - 64)"
    unfolding bk_mm_def by (rule round_error) simp
  with eta_small show "\<bar>bk_mm a - a * a\<bar> \<le> a * a / 2 ^ 64 + 1 / 2 ^ 128"
    by linarith
qed

lemma two_roundings:
  fixes A m t :: real
  assumes "0 \<le> A"
    and "\<bar>m - A\<bar> \<le> A / 2 ^ 64 + 1 / 2 ^ 128"
    and "\<bar>t - (m + 1)\<bar> \<le> (m + 1) / 2 ^ 64 + 1 / 2 ^ 128"
  shows "(1 + A) - 3 * ((1 + A) / 2 ^ 64) \<le> t \<and> t \<le> (1 + A) + 3 * ((1 + A) / 2 ^ 64)"
  using assms by (simp add: abs_le_iff add_divide_distrib)

lemma bk_sum_bounds:
  assumes "0 \<le> a"
  shows "(1 + a * a) - 3 * ((1 + a * a) / 2 ^ 64) \<le> bk_sum a"
    and "bk_sum a \<le> (1 + a * a) + 3 * ((1 + a * a) / 2 ^ 64)"
    and "1 \<le> bk_sum a"
proof -
  let ?A = "a * a"
  have A: "0 \<le> ?A" by simp
  note mm = bk_mm_bounds [OF assms]
  have "\<bar>bk_sum a - (bk_mm a + 1)\<bar> \<le> (bk_mm a + 1) / 2 ^ 64 + pow2 (ld_emin - 64)"
    unfolding bk_sum_def using mm(1) by (intro round_error) simp
  with eta_small have s: "\<bar>bk_sum a - (bk_mm a + 1)\<bar> \<le> (bk_mm a + 1) / 2 ^ 64 + 1 / 2 ^ 128"
    by linarith
  from two_roundings [OF A mm(2) s]
  show "(1 + ?A) - 3 * ((1 + ?A) / 2 ^ 64) \<le> bk_sum a"
    and "bk_sum a \<le> (1 + ?A) + 3 * ((1 + ?A) / 2 ^ 64)"
    by blast+
  have "pow2 0 \<le> bk_mm a + 1"
    using mm(1) by (simp add: pow2_0)
  then have "pow2 0 \<le> round_mag (bk_mm a + 1)"
    by (rule round_mag_ge_pow2) (simp add: ld_emin_def)
  then show "1 \<le> bk_sum a"
    by (simp add: bk_sum_def pow2_0)
qed

lemma sqrt_scale_up:
  assumes "0 \<le> T" and "t \<le> T * c" and "1 \<le> c"
  shows "sqrt t \<le> sqrt T * c"
proof -
  from assms(2) have "sqrt t \<le> sqrt (T * c)"
    by (simp only: real_sqrt_le_iff)
  also have "\<dots> = sqrt T * sqrt c"
    by (rule real_sqrt_mult)
  also have "\<dots> \<le> sqrt T * c"
  proof (rule mult_left_mono)
    from assms(3) have "c * 1 \<le> c * c"
      by (intro mult_left_mono) simp_all
    then have "sqrt c \<le> sqrt (c * c)"
      by (simp only: real_sqrt_le_iff mult_1_right)
    with assms(3) show "sqrt c \<le> c"
      by simp
    from assms(1) show "0 \<le> sqrt T"
      by simp
  qed
  finally show ?thesis .
qed

lemma sqrt_scale_down:
  assumes "0 \<le> T" and "T * c \<le> t" and "0 \<le> c" and "c \<le> 1"
  shows "sqrt T * c \<le> sqrt t"
proof -
  have "sqrt T * c \<le> sqrt T * sqrt c"
  proof (rule mult_left_mono)
    from assms(3,4) have "c * c \<le> c * 1"
      by (intro mult_left_mono) simp_all
    then have "sqrt (c * c) \<le> sqrt c"
      by (simp only: real_sqrt_le_iff mult_1_right)
    with assms(3) show "c \<le> sqrt c"
      by simp
    from assms(1) show "0 \<le> sqrt T"
      by simp
  qed
  also have "\<dots> = sqrt (T * c)"
    by (rule real_sqrt_mult [symmetric])
  also from assms(2) have "\<dots> \<le> sqrt t"
    by (simp only: real_sqrt_le_iff)
  finally show ?thesis .
qed

lemma chain_lo:
  fixes R y s :: real
  assumes "0 \<le> R" and "R - 3 * (R / 2 ^ 64) \<le> y" and "y - 2 * (y / 2 ^ 64) \<le> s"
  shows "R - 6 * (R / 2 ^ 64) \<le> s"
  using assms by simp

lemma chain_hi:
  fixes R y s :: real
  assumes "0 \<le> R" and "y \<le> R + 3 * (R / 2 ^ 64)" and "s \<le> y + 2 * (y / 2 ^ 64)"
  shows "s \<le> R + 6 * (R / 2 ^ 64)"
  using assms by simp

lemma bk_s_bounds:
  assumes "0 \<le> a"
  shows "sqrt (1 + a * a) - 6 * (sqrt (1 + a * a) / 2 ^ 64) \<le> bk_s a"
    and "bk_s a \<le> sqrt (1 + a * a) + 6 * (sqrt (1 + a * a) / 2 ^ 64)"
    and "1 \<le> bk_s a"
proof -
  let ?T = "1 + a * a"
  let ?R = "sqrt ?T"
  let ?y = "sqrt (bk_sum a)"
  have T: "0 \<le> ?T"
    by (simp add: add_nonneg_nonneg)
  note sum = bk_sum_bounds [OF assms]
  have "?T + 3 * (?T / 2 ^ 64) = ?T * (1 + 3 / 2 ^ 64)"
    by (simp add: algebra_simps)
  with sum(2) have "bk_sum a \<le> ?T * (1 + 3 / 2 ^ 64)"
    by (simp only:)
  with T have "?y \<le> ?R * (1 + 3 / 2 ^ 64)"
    by (rule sqrt_scale_up) simp
  then have up: "?y \<le> ?R + 3 * (?R / 2 ^ 64)"
    by (simp add: algebra_simps)
  have "?T - 3 * (?T / 2 ^ 64) = ?T * (1 - 3 / 2 ^ 64)"
    by (simp add: algebra_simps)
  with sum(1) have "?T * (1 - 3 / 2 ^ 64) \<le> bk_sum a"
    by (simp only:)
  with T have "?R * (1 - 3 / 2 ^ 64) \<le> ?y"
    by (rule sqrt_scale_down) simp_all
  then have lo: "?R - 3 * (?R / 2 ^ 64) \<le> ?y"
    by (simp add: algebra_simps)
  from sum(3) have "sqrt 1 \<le> ?y"
    by (simp only: real_sqrt_le_iff)
  then have y1: "1 \<le> ?y"
    by (simp only: real_sqrt_one)
  then have "?y * (1 - 2 / 2 ^ 64) \<le> round_mag ?y \<and> round_mag ?y \<le> ?y * (1 + 2 / 2 ^ 64)"
    by (rule round_error_rel)
  then have rel: "?y - 2 * (?y / 2 ^ 64) \<le> bk_s a" "bk_s a \<le> ?y + 2 * (?y / 2 ^ 64)"
    by (simp_all add: bk_s_def algebra_simps)
  have R0: "0 \<le> ?R"
    using T by simp
  from R0 lo rel(1) show "?R - 6 * (?R / 2 ^ 64) \<le> bk_s a"
    by (rule chain_lo)
  from R0 up rel(2) show "bk_s a \<le> ?R + 6 * (?R / 2 ^ 64)"
    by (rule chain_hi)
  from y1 have "pow2 0 \<le> ?y"
    by (simp only: pow2_0)
  then have "pow2 0 \<le> round_mag ?y"
    by (rule round_mag_ge_pow2) (simp add: ld_emin_def)
  then show "1 \<le> bk_s a"
    by (simp only: bk_s_def pow2_0)
qed

lemma widen_up:
  fixes R s :: real
  assumes "0 \<le> R" and "R - 6 * (R / 2 ^ 64) \<le> s"
  shows "R \<le> s + 12 * (s / 2 ^ 64)"
  using assms by simp

lemma widen_down:
  fixes R s :: real
  assumes "0 \<le> R" and "s \<le> R + 6 * (R / 2 ^ 64)"
  shows "s - 6 * (s / 2 ^ 64) \<le> R"
  using assms by simp

lemma pos_of_near:
  fixes R s :: real
  assumes "1 \<le> R" and "R - 6 * (R / 2 ^ 64) \<le> s"
  shows "0 < s"
  using assms by simp

lemma near_of_scaled:
  fixes y z :: real
  assumes "0 \<le> y" and "y \<le> 1" and "y - 6 * (y / 2 ^ 64) \<le> z" and "z \<le> y + 12 * (y / 2 ^ 64)"
  shows "\<bar>z - y\<bar> \<le> 12 / 2 ^ 64"
proof -
  from assms have "z - y \<le> 12 / 2 ^ 64"
    by simp
  moreover from assms have "y - z \<le> 12 / 2 ^ 64"
    by simp
  ultimately show ?thesis
    by (simp only: abs_le_iff) simp
qed

lemma recip_perturb:
  fixes R s X :: real
  assumes "1 \<le> R" and "R - 6 * (R / 2 ^ 64) \<le> s" and "s \<le> R + 6 * (R / 2 ^ 64)"
    and "0 \<le> X" and "X \<le> R"
  shows "\<bar>X / s - X / R\<bar> \<le> 12 / 2 ^ 64"
proof -
  let ?y = "X / R"
  from assms(1) have R: "0 < R" "0 \<le> R"
    by simp_all
  from assms(1,2) have s: "0 < s"
    by (rule pos_of_near)
  from R(1) assms(4,5) have y: "0 \<le> ?y" "?y \<le> 1"
    by simp_all
  from R(1) have X: "X = ?y * R"
    by simp
  from R(2) assms(2) have "R \<le> s + 12 * (s / 2 ^ 64)"
    by (rule widen_up)
  with y(1) have "?y * R \<le> ?y * (s + 12 * (s / 2 ^ 64))"
    by (rule mult_left_mono [rotated])
  also have "\<dots> = (?y + 12 * (?y / 2 ^ 64)) * s"
    by (simp add: algebra_simps)
  finally have "X \<le> (?y + 12 * (?y / 2 ^ 64)) * s"
    by (simp only: X [symmetric])
  with s have up: "X / s \<le> ?y + 12 * (?y / 2 ^ 64)"
    by (simp only: pos_divide_le_eq)
  from R(2) assms(3) have "s - 6 * (s / 2 ^ 64) \<le> R"
    by (rule widen_down)
  with y(1) have "?y * (s - 6 * (s / 2 ^ 64)) \<le> ?y * R"
    by (rule mult_left_mono [rotated])
  moreover have "?y * (s - 6 * (s / 2 ^ 64)) = (?y - 6 * (?y / 2 ^ 64)) * s"
    by (simp add: algebra_simps)
  ultimately have "(?y - 6 * (?y / 2 ^ 64)) * s \<le> X"
    by (simp only: X [symmetric])
  with s have lo: "?y - 6 * (?y / 2 ^ 64) \<le> X / s"
    by (simp only: pos_le_divide_eq)
  from y lo up show ?thesis
    by (rule near_of_scaled)
qed

lemma bk_q_bounds:
  assumes "0 \<le> a"
  shows "0 \<le> bk_q a" and "bk_q a \<le> 1"
    and "1 / sqrt (1 + a * a) - 15 / 2 ^ 64 \<le> bk_q a"
    and "bk_q a \<le> 1 / sqrt (1 + a * a) + 15 / 2 ^ 64"
proof -
  let ?R = "sqrt (1 + a * a)"
  note s = bk_s_bounds [OF assms]
  note R = root_facts [OF assms]
  from s(3) have x: "0 \<le> 1 / bk_s a" "1 / bk_s a \<le> 1"
    by simp_all
  from x show "0 \<le> bk_q a" and "bk_q a \<le> 1"
    unfolding bk_q_def by (rule round_unit)+
  have "\<bar>1 / bk_s a - 1 / ?R\<bar> \<le> 12 / 2 ^ 64"
    using R(1) s(1) s(2) by (rule recip_perturb) (simp_all add: R(1))
  then have near: "1 / ?R - 12 / 2 ^ 64 \<le> 1 / bk_s a" "1 / bk_s a \<le> 1 / ?R + 12 / 2 ^ 64"
    by (rule abs_two_sided)+
  from x have rnd: "1 / bk_s a - 3 / 2 ^ 64 \<le> bk_q a" "bk_q a \<le> 1 / bk_s a + 3 / 2 ^ 64"
    unfolding bk_q_def by (intro round_near; simp)+
  have k: "(12::real) / 2 ^ 64 + 3 / 2 ^ 64 \<le> 15 / 2 ^ 64"
    by simp
  from near rnd k show "1 / ?R - 15 / 2 ^ 64 \<le> bk_q a"
    by (rule add_errors)
  from near rnd k show "bk_q a \<le> 1 / ?R + 15 / 2 ^ 64"
    by (rule add_errors)
qed

lemma bk_kx_bounds:
  assumes "0 \<le> a"
  shows "0 \<le> bk_kx a" and "bk_kx a \<le> 1"
    and "(1 - bk_q a) - 3 / 2 ^ 64 \<le> bk_kx a" and "bk_kx a \<le> (1 - bk_q a) + 3 / 2 ^ 64"
proof -
  note q = bk_q_bounds [OF assms]
  from q(1,2) have x: "0 \<le> 1 - bk_q a" "1 - bk_q a \<le> 1"
    by simp_all
  from x show "0 \<le> bk_kx a" and "bk_kx a \<le> 1"
    unfolding bk_kx_def by (rule round_unit)+
  from x show "(1 - bk_q a) - 3 / 2 ^ 64 \<le> bk_kx a" and "bk_kx a \<le> (1 - bk_q a) + 3 / 2 ^ 64"
    unfolding bk_kx_def by (intro round_near; simp)+
qed

lemma twice_subtracted:
  fixes r q k d :: real
  assumes "r - 15 / 2 ^ 64 \<le> q" and "q \<le> r + 15 / 2 ^ 64"
    and "(1 - q) - 3 / 2 ^ 64 \<le> k" and "k \<le> (1 - q) + 3 / 2 ^ 64"
    and "(1 - k) - 3 / 2 ^ 64 \<le> d" and "d \<le> (1 - k) + 3 / 2 ^ 64"
  shows "r - 21 / 2 ^ 64 \<le> d" and "d \<le> r + 21 / 2 ^ 64"
  using assms by simp_all

lemma bk_dx_bounds:
  assumes "0 \<le> a"
  shows "0 \<le> bk_dx a" and "bk_dx a \<le> 1"
    and "1 / sqrt (1 + a * a) - 21 / 2 ^ 64 \<le> bk_dx a"
    and "bk_dx a \<le> 1 / sqrt (1 + a * a) + 21 / 2 ^ 64"
proof -
  note q = bk_q_bounds [OF assms]
  note k = bk_kx_bounds [OF assms]
  from k(1,2) have x: "0 \<le> 1 - bk_kx a" "1 - bk_kx a \<le> 1"
    by simp_all
  from x show "0 \<le> bk_dx a" and "bk_dx a \<le> 1"
    unfolding bk_dx_def by (rule round_unit)+
  from x have d: "(1 - bk_kx a) - 3 / 2 ^ 64 \<le> bk_dx a" "bk_dx a \<le> (1 - bk_kx a) + 3 / 2 ^ 64"
    unfolding bk_dx_def by (intro round_near; simp)+
  from q(3,4) k(3,4) d show "1 / sqrt (1 + a * a) - 21 / 2 ^ 64 \<le> bk_dx a"
    by (rule twice_subtracted)
  from q(3,4) k(3,4) d show "bk_dx a \<le> 1 / sqrt (1 + a * a) + 21 / 2 ^ 64"
    by (rule twice_subtracted)
qed

lemma ratio_le_1: "0 < R \<Longrightarrow> a \<le> R \<Longrightarrow> a / R \<le> (1::real)"
  by simp

lemma frac_unit: "0 < 1 + A \<Longrightarrow> 1 / (1 + A) + A / (1 + A) = (1::real)"
  by (simp add: add_divide_distrib [symmetric])

lemma below_two:
  fixes z y :: real
  assumes "y \<le> 1" and "z \<le> y + 12 / 2 ^ 64"
  shows "z \<le> 2"
  using assms by simp

lemma bk_ky_bounds:
  assumes "0 \<le> a"
  shows "0 \<le> bk_ky a"
    and "a / sqrt (1 + a * a) - 15 / 2 ^ 64 \<le> bk_ky a"
    and "bk_ky a \<le> a / sqrt (1 + a * a) + 15 / 2 ^ 64"
proof -
  let ?R = "sqrt (1 + a * a)"
  note s = bk_s_bounds [OF assms]
  note R = root_facts [OF assms]
  from s(3) assms have x0: "0 \<le> a / bk_s a"
    by simp
  from R(1) have "0 < ?R"
    by linarith
  then have y1: "a / ?R \<le> 1"
    using R(2) by (rule ratio_le_1)
  have "\<bar>a / bk_s a - a / ?R\<bar> \<le> 12 / 2 ^ 64"
    using R(1) s(1) s(2) assms R(2) by (rule recip_perturb)
  then have near: "a / ?R - 12 / 2 ^ 64 \<le> a / bk_s a" "a / bk_s a \<le> a / ?R + 12 / 2 ^ 64"
    by (rule abs_two_sided)+
  from y1 near(2) have x2: "a / bk_s a \<le> 2"
    by (rule below_two)
  from x0 show "0 \<le> bk_ky a"
    unfolding bk_ky_def by (rule round_mag_nonneg)
  from x0 x2 have rnd: "a / bk_s a - 3 / 2 ^ 64 \<le> bk_ky a" "bk_ky a \<le> a / bk_s a + 3 / 2 ^ 64"
    unfolding bk_ky_def by (rule round_near)+
  have k: "(12::real) / 2 ^ 64 + 3 / 2 ^ 64 \<le> 15 / 2 ^ 64"
    by simp
  from near rnd k show "a / ?R - 15 / 2 ^ 64 \<le> bk_ky a"
    by (rule add_errors)
  from near rnd k show "bk_ky a \<le> a / ?R + 15 / 2 ^ 64"
    by (rule add_errors)
qed

lemma sq_perturb:
  fixes d r c :: real
  assumes "0 \<le> r" and "r \<le> 1" and "0 \<le> d" and "r - c \<le> d" and "d \<le> r + c"
    and "0 \<le> c" and "c \<le> 1"
  shows "r * r - 3 * c \<le> d * d" and "d * d \<le> r * r + 3 * c"
proof -
  from assms(1,2,6) have rc: "r * c \<le> 1 * c"
    by (intro mult_right_mono)
  from assms(6,7) have cc: "c * c \<le> 1 * c"
    by (intro mult_right_mono)
  from assms(3,5) have "d * d \<le> (r + c) * (r + c)"
    by (intro mult_mono) simp_all
  also have "\<dots> = r * r + 2 * (r * c) + c * c"
    by (simp add: algebra_simps)
  finally show "d * d \<le> r * r + 3 * c"
    using rc cc by simp
  show "r * r - 3 * c \<le> d * d"
  proof (cases "r \<le> c")
    case True
    from assms(1,2) have "r * r \<le> 1 * r"
      by (intro mult_right_mono)
    with True assms(6) have "r * r - 3 * c \<le> 0"
      by simp
    moreover have "0 \<le> d * d"
      by simp
    ultimately show ?thesis
      by linarith
  next
    case False
    then have "0 \<le> r - c"
      by simp
    with assms(4) have "(r - c) * (r - c) \<le> d * d"
      by (intro mult_mono) simp_all
    moreover have "(r - c) * (r - c) = r * r - 2 * (r * c) + c * c"
      by (simp add: algebra_simps)
    moreover have "0 \<le> c * c"
      by simp
    ultimately show ?thesis
      using rc assms(6) by linarith
  qed
qed

lemma unit_circle:
  assumes "0 \<le> a"
  shows "1 / sqrt (1 + a * a) * (1 / sqrt (1 + a * a))
       + a / sqrt (1 + a * a) * (a / sqrt (1 + a * a)) = 1"
proof -
  let ?R = "sqrt (1 + a * a)"
  have pos: "0 < 1 + a * a"
    by (rule msqrt_arg_pos' [of a])
  then have RR: "?R * ?R = 1 + a * a"
    by simp
  have "1 / ?R * (1 / ?R) + a / ?R * (a / ?R) = 1 / (?R * ?R) + a * a / (?R * ?R)"
    by simp
  also have "\<dots> = 1 / (1 + a * a) + a * a / (1 + a * a)"
    by (simp only: RR)
  also from pos have "\<dots> = 1"
    by (rule frac_unit)
  finally show ?thesis .
qed

lemma sqrt_near_one:
  fixes v c :: real
  assumes "0 \<le> c" and "c \<le> 1" and "1 - c \<le> v" and "v \<le> 1 + c"
  shows "1 - c \<le> sqrt v" and "sqrt v \<le> 1 + c"
proof -
  from assms(1,2) have "(1 - c) * (1 - c) \<le> 1 * (1 - c)"
    by (intro mult_right_mono) simp_all
  with assms(3) have "(1 - c) * (1 - c) \<le> v"
    by simp
  then have "sqrt ((1 - c) * (1 - c)) \<le> sqrt v"
    by (rule real_sqrt_le_mono)
  with assms(2) show "1 - c \<le> sqrt v"
    by simp
  from assms(1) have "1 * (1 + c) \<le> (1 + c) * (1 + c)"
    by (intro mult_right_mono) simp_all
  with assms(4) have "v \<le> (1 + c) * (1 + c)"
    by simp
  then have "sqrt v \<le> sqrt ((1 + c) * (1 + c))"
    by (rule real_sqrt_le_mono)
  with assms(1) show "sqrt v \<le> 1 + c"
    by simp
qed

lemma sum_of_squares_near:
  fixes p q u w P Q :: real
  assumes "P + Q = 1"
    and "P - 63 / 2 ^ 64 \<le> p" and "p \<le> P + 63 / 2 ^ 64"
    and "Q - 45 / 2 ^ 64 \<le> q" and "q \<le> Q + 45 / 2 ^ 64"
    and "p - 3 / 2 ^ 64 \<le> u" and "u \<le> p + 3 / 2 ^ 64"
    and "q - 3 / 2 ^ 64 \<le> w" and "w \<le> q + 3 / 2 ^ 64"
  shows "1 - 114 / 2 ^ 64 \<le> u + w" and "u + w \<le> 1 + 114 / 2 ^ 64"
  using assms by simp_all

lemma square_below_two:
  fixes k y :: real
  assumes "0 \<le> k" and "y \<le> 1" and "k \<le> y + 15 / 2 ^ 64"
  shows "k * k \<le> 2"
proof -
  from assms(2,3) have "k \<le> 5 / 4"
    by simp
  with assms(1) have "k * k \<le> 5 / 4 * (5 / 4)"
    by (intro mult_mono) simp_all
  then show ?thesis
    by simp
qed

lemma last_steps:
  fixes v g z :: real
  assumes "1 - 114 / 2 ^ 64 \<le> v" and "v \<le> 1 + 114 / 2 ^ 64"
    and "v - 3 / 2 ^ 64 \<le> g" and "g \<le> v + 3 / 2 ^ 64"
  shows "1 - 117 / 2 ^ 64 \<le> g" and "g \<le> 1 + 117 / 2 ^ 64"
  using assms by simp_all

lemma very_last_step:
  fixes h z :: real
  assumes "1 - 117 / 2 ^ 64 \<le> h" and "h \<le> 1 + 117 / 2 ^ 64"
    and "h - 3 / 2 ^ 64 \<le> z" and "z \<le> h + 3 / 2 ^ 64"
  shows "\<bar>z - 1\<bar> \<le> 1 / 2 ^ 57"
proof -
  from assms have "z - 1 \<le> 1 / 2 ^ 57" and "1 - z \<le> 1 / 2 ^ 57"
    by simp_all
  then show ?thesis
    by (simp only: abs_le_iff) simp
qed

lemma bk_out_bound:
  assumes "0 \<le> a"
  shows "\<bar>bk_out a - 1\<bar> \<le> 1 / 2 ^ 57"
    and "0 \<le> bk_dx a * bk_dx a" and "bk_dx a * bk_dx a \<le> 1"
    and "0 \<le> bk_ky a * bk_ky a" and "bk_ky a * bk_ky a \<le> 2"
    and "round_mag (bk_dx a * bk_dx a) + round_mag (bk_ky a * bk_ky a) \<le> 2"
    and "sqrt (bk_rr a) \<le> 2"
proof -
  let ?R = "sqrt (1 + a * a)"
  let ?p = "bk_dx a * bk_dx a" and ?q = "bk_ky a * bk_ky a"
  let ?u = "round_mag (bk_dx a * bk_dx a)" and ?w = "round_mag (bk_ky a * bk_ky a)"
  note R = root_facts [OF assms]
  note dx = bk_dx_bounds [OF assms]
  note ky = bk_ky_bounds [OF assms]
  from R(1) have Rpos: "0 < ?R"
    by linarith
  then have rho: "0 \<le> 1 / ?R" "1 / ?R \<le> 1"
    using R(1) by simp_all
  from Rpos assms have alpha0: "0 \<le> a / ?R"
    by simp
  from Rpos R(2) have alpha1: "a / ?R \<le> 1"
    by (rule ratio_le_1)
  have c21: "(0::real) \<le> 21 / 2 ^ 64" "(21::real) / 2 ^ 64 \<le> 1"
    and c15: "(0::real) \<le> 15 / 2 ^ 64" "(15::real) / 2 ^ 64 \<le> 1"
    by simp_all
  from rho dx(1) dx(3,4) c21
  have p: "1 / ?R * (1 / ?R) - 3 * (21 / 2 ^ 64) \<le> ?p" "?p \<le> 1 / ?R * (1 / ?R) + 3 * (21 / 2 ^ 64)"
    by (rule sq_perturb)+
  from alpha0 alpha1 ky(1) ky(2,3) c15
  have q: "a / ?R * (a / ?R) - 3 * (15 / 2 ^ 64) \<le> ?q" "?q \<le> a / ?R * (a / ?R) + 3 * (15 / 2 ^ 64)"
    by (rule sq_perturb)+
  show p0: "0 \<le> ?p" and q0: "0 \<le> ?q"
    by simp_all
  from dx(1,2) have "?p \<le> 1 * 1"
    by (intro mult_mono) simp_all
  then show p1: "?p \<le> 1"
    by simp
  from ky(1) alpha1 ky(3) show q2: "?q \<le> 2"
    by (rule square_below_two)
  from p0 p1 have u: "?p - 3 / 2 ^ 64 \<le> ?u" "?u \<le> ?p + 3 / 2 ^ 64"
    by (intro round_near; simp)+
  from q0 q2 have w: "?q - 3 / 2 ^ 64 \<le> ?w" "?w \<le> ?q + 3 / 2 ^ 64"
    by (rule round_near)+
  have p': "1 / ?R * (1 / ?R) - 63 / 2 ^ 64 \<le> ?p" "?p \<le> 1 / ?R * (1 / ?R) + 63 / 2 ^ 64"
    using p by simp_all
  have q': "a / ?R * (a / ?R) - 45 / 2 ^ 64 \<le> ?q" "?q \<le> a / ?R * (a / ?R) + 45 / 2 ^ 64"
    using q by simp_all
  note one = unit_circle [OF assms]
  from one p' q' u w have v: "1 - 114 / 2 ^ 64 \<le> ?u + ?w" "?u + ?w \<le> 1 + 114 / 2 ^ 64"
    by (rule sum_of_squares_near)+
  from v(2) show v2: "?u + ?w \<le> 2"
    by simp
  from v(1) have v0: "0 \<le> ?u + ?w"
    by simp
  from v0 v2 have g: "(?u + ?w) - 3 / 2 ^ 64 \<le> bk_rr a" "bk_rr a \<le> (?u + ?w) + 3 / 2 ^ 64"
    unfolding bk_rr_def by (rule round_near)+
  from v g have rr: "1 - 117 / 2 ^ 64 \<le> bk_rr a" "bk_rr a \<le> 1 + 117 / 2 ^ 64"
    by (rule last_steps)+
  have c117: "(0::real) \<le> 117 / 2 ^ 64" "(117::real) / 2 ^ 64 \<le> 1"
    by simp_all
  from c117 rr have h: "1 - 117 / 2 ^ 64 \<le> sqrt (bk_rr a)" "sqrt (bk_rr a) \<le> 1 + 117 / 2 ^ 64"
    by (rule sqrt_near_one)+
  from h(2) show h2: "sqrt (bk_rr a) \<le> 2"
    by simp
  from rr(1) have "0 \<le> bk_rr a"
    by simp
  then have h0: "0 \<le> sqrt (bk_rr a)"
    by (rule real_sqrt_ge_zero)
  from h0 h2 have z: "sqrt (bk_rr a) - 3 / 2 ^ 64 \<le> bk_out a" "bk_out a \<le> sqrt (bk_rr a) + 3 / 2 ^ 64"
    unfolding bk_out_def by (rule round_near)+
  from h z show "\<bar>bk_out a - 1\<bar> \<le> 1 / 2 ^ 57"
    by (rule very_last_step)
qed

text \<open>
  The operations of the program return these magnitudes as long as \<open>m*m\<close> does not
  overflow.
\<close>

lemma ld_one_minus:
  assumes "0 \<le> q" and "q \<le> 1"
  shows "ld_sub ld_one (Finite False q) = Finite False (round_mag (1 - q))"
proof (cases "q = 1")
  case True
  then show ?thesis
    by (simp add: ld_sub_def ld_one_def round_mag_0)
next
  case False
  with assms(2) have pos: "0 < 1 - q"
    by simp
  then have "ld_sub ld_one (Finite False q) = ld_round False (1 - q)"
    by (simp add: ld_sub_def ld_one_def Let_def)
  also have "\<dots> = Finite False (round_mag (1 - q))"
  proof (rule ld_round_finite_below)
    from pos show "0 \<le> 1 - q" by simp
    from assms(1) show "1 - q \<le> pow2 0" by (simp add: pow2_0)
  qed (simp_all add: ld_emin_def ld_emax_def)
  finally show ?thesis .
qed

lemma ld_zero_minus:
  assumes "is_ld (Finite s k)"
  shows "\<exists>t. ld_sub ld_zero (Finite s k) = Finite t k"
proof (cases "k = 0")
  case True
  then show ?thesis
    by (auto simp add: ld_sub_def ld_zero_def)
next
  case False
  with assms have k: "0 < k" "round_mag k = k" "\<not> pow2 (ld_emax + 1) \<le> k"
    by simp_all
  then have "ld_sub ld_zero (Finite s k) = ld_round (\<not> s) k"
    by (cases s) (simp_all add: ld_sub_def ld_zero_def Let_def)
  with k show ?thesis
    by (simp add: ld_round_def)
qed

lemma ld_add_nonneg:
  assumes "0 \<le> u" and "0 \<le> w" and "u + w \<le> pow2 k" and "ld_emin \<le> k" and "k \<le> ld_emax"
  shows "ld_add (Finite False u) (Finite False w) = Finite False (round_mag (u + w))"
proof (cases "u + w = 0")
  case True
  then show ?thesis
    by (simp add: round_mag_0)
next
  case False
  with assms(1,2) have "ld_add (Finite False u) (Finite False w) = ld_round False (u + w)"
    by (simp add: Let_def)
  also from assms have "\<dots> = Finite False (round_mag (u + w))"
    by (intro ld_round_finite_below) simp_all
  finally show ?thesis .
qed

lemma ld_sqrt_nonneg:
  assumes "0 \<le> v" and "sqrt v \<le> pow2 k" and "ld_emin \<le> k" and "k \<le> ld_emax"
  shows "ld_sqrt (Finite False v) = Finite False (round_mag (sqrt v))"
proof (cases "v = 0")
  case True
  then show ?thesis
    by (simp add: round_mag_0)
next
  case False
  then have "ld_sqrt (Finite False v) = ld_round False (sqrt v)"
    by simp
  also from assms have "\<dots> = Finite False (round_mag (sqrt v))"
    by (intro ld_round_finite_below) simp_all
  finally show ?thesis .
qed

lemma two_is_pow2: "(2::real) = pow2 1"
  by (simp add: pow2_def)

lemma ld_CB_length: "ld_vec2Magnitude (ld_vec2Subtract ld_CT_C ld_CT_B) = Finite False 1"
  by (simp add: ld_vec2Magnitude_def ld_vec2Subtract_def ld_CT_C_def ld_CT_B_def ld_sub_def
      ld_zero_def ld_one_def Let_def ld_round_1 ld_round_0)

lemma ld_BK_length:
  assumes fin: "ld_finite (Finite sg a)" and small: "a \<le> pow2 8191"
  shows "ld_vec2Magnitude (ld_vec2Subtract ld_CT_B (ld_CT_K (Finite sg a))) = Finite False (bk_out a)"
proof -
  from fin have a0: "0 \<le> a"
    by simp
  have e1: "ld_emin \<le> 0" "0 \<le> ld_emax" "ld_emin \<le> 1" "1 \<le> ld_emax"
    "ld_emin \<le> 16382" "16382 \<le> ld_emax" "ld_emin \<le> 16383" "16383 \<le> ld_emax"
    "ld_emin \<le> 8191" "8191 \<le> ld_emax"
    by (simp_all add: ld_emin_def ld_emax_def)
  \<comment> \<open>m * m\<close>
  from a0 small have "a * a \<le> pow2 8191 * pow2 8191"
    by (intro mult_mono) (simp_all add: less_imp_le [OF pow2_pos])
  also have "\<dots> = pow2 (8191 + 8191)"
    by (simp only: pow2_add)
  finally have aa: "a * a \<le> pow2 16382"
    by simp
  have mm: "ld_mul (Finite sg a) (Finite sg a) = Finite False (bk_mm a)"
    unfolding bk_mm_def using aa e1 by (simp add: ld_round_finite_below)
  have mm0: "0 \<le> bk_mm a"
    using a0 by (rule bk_mm_bounds)
  have mm_le: "bk_mm a \<le> pow2 16382"
    unfolding bk_mm_def using aa e1 by (intro round_mag_le_pow2) simp_all
  \<comment> \<open>m * m + 1.0\<close>
  have "pow2 16383 = pow2 (16382 + 1)"
    by simp
  also have "\<dots> = 2 * pow2 16382"
    by (rule pow2_suc)
  finally have dbl: "pow2 16383 = 2 * pow2 16382" .
  have "pow2 0 \<le> pow2 16382"
    by (intro pow2_le) simp
  with mm_le dbl have sum_le: "bk_mm a + 1 \<le> pow2 16383"
    by (simp add: pow2_0)
  have sum: "ld_add (Finite False (bk_mm a)) ld_one = Finite False (bk_sum a)"
    unfolding bk_sum_def ld_one_def using mm0 sum_le e1
    by (intro ld_add_nonneg [where k = 16383]) simp_all
  note sb = bk_sum_bounds [OF a0]
  have sum_le': "bk_sum a \<le> pow2 16383"
    unfolding bk_sum_def using mm0 sum_le e1 by (intro round_mag_le_pow2) simp_all
  \<comment> \<open>sqrtl\<close>
  from sb(3) have "sqrt (bk_sum a) \<le> sqrt (bk_sum a * bk_sum a)"
    by (intro real_sqrt_le_mono) simp
  with sb(3) have "sqrt (bk_sum a) \<le> bk_sum a"
    by simp
  with sum_le' have root_le: "sqrt (bk_sum a) \<le> pow2 16383"
    by linarith
  from sb(3) have sum0: "0 \<le> bk_sum a"
    by simp
  have root: "ld_sqrt (Finite False (bk_sum a)) = Finite False (bk_s a)"
    unfolding bk_s_def using sum0 root_le e1 by (intro ld_sqrt_nonneg [where k = 16383]) simp_all
  have S: "ld_sqrt (ld_add (ld_mul (Finite sg a) (Finite sg a)) ld_one) = Finite False (bk_s a)"
    by (simp only: mm sum root)
  note s = bk_s_bounds [OF a0]
  from s(3) have s0: "bk_s a \<noteq> 0" "0 < bk_s a"
    by simp_all
  \<comment> \<open>K.x\<close>
  from s(3) have inv: "0 \<le> 1 / bk_s a" "1 / bk_s a \<le> pow2 0"
    by (simp_all add: pow2_0)
  have q: "ld_div ld_one (Finite False (bk_s a)) = Finite False (bk_q a)"
    unfolding bk_q_def ld_one_def using s0(1) inv e1 by (simp add: ld_round_finite_below)
  note qb = bk_q_bounds [OF a0]
  have kx: "ld_sub ld_one (Finite False (bk_q a)) = Finite False (bk_kx a)"
    unfolding bk_kx_def using qb(1,2) by (rule ld_one_minus)
  \<comment> \<open>K.y\<close>
  from s(3) a0 have "a / bk_s a \<le> a / 1"
    by (intro divide_left_mono) simp_all
  with small have quot: "0 \<le> a / bk_s a" "a / bk_s a \<le> pow2 8191"
    using a0 s0(2) by simp_all
  have ky: "ld_div (Finite sg a) (Finite False (bk_s a)) = Finite sg (bk_ky a)"
    unfolding bk_ky_def using s0(1) quot e1 by (simp add: ld_round_finite_below)
  have K: "ld_CT_K (Finite sg a) = \<lparr>ld_x = Finite False (bk_kx a), ld_y = Finite sg (bk_ky a)\<rparr>"
    by (simp only: ld_CT_K_def S q kx ky)
  \<comment> \<open>B - K\<close>
  note kb = bk_kx_bounds [OF a0]
  have dx: "ld_sub ld_one (Finite False (bk_kx a)) = Finite False (bk_dx a)"
    unfolding bk_dx_def using kb(1,2) by (rule ld_one_minus)
  have "is_ld (ld_round sg (a / bk_s a))"
    using quot(1) by (rule is_ld_round)
  then have "is_ld (Finite sg (bk_ky a))"
    unfolding bk_ky_def using quot e1 by (simp add: ld_round_finite_below)
  then obtain t where dy: "ld_sub ld_zero (Finite sg (bk_ky a)) = Finite t (bk_ky a)"
    using ld_zero_minus by blast
  have diff: "ld_vec2Subtract ld_CT_B (ld_CT_K (Finite sg a))
      = \<lparr>ld_x = Finite False (bk_dx a), ld_y = Finite t (bk_ky a)\<rparr>"
    by (simp add: ld_vec2Subtract_def K ld_CT_B_def dx dy)
  \<comment> \<open>the magnitude\<close>
  note ob = bk_out_bound [OF a0]
  have xx: "ld_mul (Finite False (bk_dx a)) (Finite False (bk_dx a))
      = Finite False (round_mag (bk_dx a * bk_dx a))"
    using ob(2,3) e1 by (simp add: ld_round_finite_below [where k = 0] pow2_0)
  have yy: "ld_mul (Finite t (bk_ky a)) (Finite t (bk_ky a))
      = Finite False (round_mag (bk_ky a * bk_ky a))"
    using ob(4,5) e1 by (simp add: ld_round_finite_below [where k = 1] two_is_pow2 [symmetric])
  have u0: "0 \<le> round_mag (bk_dx a * bk_dx a)" and w0: "0 \<le> round_mag (bk_ky a * bk_ky a)"
    by (rule round_mag_nonneg, simp)+
  from ob(6) have "round_mag (bk_dx a * bk_dx a) + round_mag (bk_ky a * bk_ky a) \<le> pow2 1"
    by (simp only: two_is_pow2 [symmetric])
  with u0 w0 have sumsq: "ld_add (Finite False (round_mag (bk_dx a * bk_dx a)))
        (Finite False (round_mag (bk_ky a * bk_ky a))) = Finite False (bk_rr a)"
    unfolding bk_rr_def using e1 by (intro ld_add_nonneg [where k = 1]) simp_all
  have rr0: "0 \<le> bk_rr a"
    unfolding bk_rr_def using u0 w0 by (intro round_mag_nonneg) simp
  from ob(7) have "sqrt (bk_rr a) \<le> pow2 1"
    by (simp only: two_is_pow2 [symmetric])
  with rr0 have out: "ld_sqrt (Finite False (bk_rr a)) = Finite False (bk_out a)"
    unfolding bk_out_def using e1 by (intro ld_sqrt_nonneg [where k = 1]) simp_all
  show ?thesis
    by (simp only: diff ld_vec2Magnitude_def ld_vec2.select_convs xx yy sumsq out)
qed

text \<open>
  C8, as the code has it. The length \<open>|CB|\<close> is exactly one. For every finite slope \<open>m\<close>
  of magnitude at most \<open>2^8191\<close>, so that \<open>m*m\<close> does not overflow, the computed length
  \<open>|BK|\<close> is a finite long double within \<open>2^-57\<close> of one. It need not be one: each of
  the twelve operations rounds.
\<close>

theorem ld_unit_sides:
  assumes "ld_finite (Finite sg a)" and "a \<le> pow2 8191"
  shows "ld_vec2Magnitude (ld_vec2Subtract ld_CT_B (ld_CT_K (Finite sg a))) = Finite False (bk_out a)
    \<and> \<bar>bk_out a - 1\<bar> \<le> 1 / 2 ^ 57
    \<and> ld_vec2Magnitude (ld_vec2Subtract ld_CT_C ld_CT_B) = Finite False 1"
proof -
  from assms have "ld_vec2Magnitude (ld_vec2Subtract ld_CT_B (ld_CT_K (Finite sg a)))
      = Finite False (bk_out a)"
    by (rule ld_BK_length)
  moreover from assms(1) have "0 \<le> a"
    by simp
  then have "\<bar>bk_out a - 1\<bar> \<le> 1 / 2 ^ 57"
    by (rule bk_out_bound)
  ultimately show ?thesis
    using ld_CB_length by blast
qed

text \<open>
  The theorem at the initial guess of the solver, \<open>m = 1\<close>.
\<close>

theorem ld_unit_sides_witness:
  "ld_finite (Finite False 1) \<and> 1 \<le> pow2 8191
   \<and> ld_vec2Magnitude (ld_vec2Subtract ld_CT_B (ld_CT_K (Finite False 1))) = Finite False (bk_out 1)
   \<and> \<bar>bk_out 1 - 1\<bar> \<le> 1 / 2 ^ 57"
proof -
  have fin: "ld_finite (Finite False 1)"
    using is_ld_int [of 1 False] by simp
  have "pow2 0 \<le> pow2 8191"
    by (intro pow2_le) simp
  then have small: "1 \<le> pow2 8191"
    by (simp only: pow2_0)
  from ld_unit_sides [OF fin small] fin small show ?thesis
    by blast
qed

text \<open>
  C8 as stated, \<open>|BK| = 1\<close> for every slope, fails at the finite slope \<open>m = 2^9000\<close>:
  \<open>m*m\<close> overflows, \<open>1/sqrtl(...)\<close> and \<open>m/sqrtl(...)\<close> are zero, the point \<open>K\<close> is computed as
  \<open>(1, 0)\<close>, which is \<open>B\<close>, and the length \<open>|BK|\<close> is zero.
\<close>

theorem ld_K_collapses:
  "huge = Finite False (pow2 9000) \<and> ld_finite huge
   \<and> ld_CT_K huge = ld_CT_B
   \<and> ld_vec2Magnitude (ld_vec2Subtract ld_CT_B (ld_CT_K huge)) = Finite False 0
   \<and> ld_vec2Magnitude (ld_vec2Subtract ld_CT_B (ld_CT_K huge)) \<noteq> Finite False 1"
proof -
  have k: "ld_CT_K huge = ld_CT_B"
    by (simp add: huge_K ld_CT_B_def ld_one_def ld_zero_def)
  have "ld_vec2Magnitude (ld_vec2Subtract ld_CT_B ld_CT_B) = Finite False 0"
    by (simp add: ld_vec2Subtract_def ld_vec2Magnitude_def ld_sub_def ld_CT_B_def ld_one_def
        ld_zero_def Let_def ld_round_0)
  with k huge_finite show ?thesis
    by (simp add: huge_def)
qed

end
